theory Spec2Isabelle
  imports Complex_Main "HOL-Library.Word"
begin

section \<open>JavaScript values, buffers and errors\<close>

text \<open>
  The module under study (\<^verbatim>\<open>index.js\<close> of node-vad) exports the class \<^verbatim>\<open>VAD\<close>, a wrapper
  around a native voice-activity classifier, and \<^verbatim>\<open>VADStream\<close>, a Transform stream that
  cuts a PCM byte stream into 60 ms frames, classifies each frame and emits one event
  object per frame.

  JavaScript numbers are modelled as exact rationals extended by \<^verbatim>\<open>NaN\<close> and the two
  infinities. All times the stream computes are products of a byte count with
  \<^verbatim>\<open>1000 / audioFrequency / 2\<close>; for the rates 8000, 16000 and 32000 this factor is a power
  of two, so the double arithmetic of the source is exact on them. At 48000 the source
  rounds the factor 1/96 to a double; the model keeps the exact quotient.
\<close>

type_synonym byte = "8 word"
type_synonym buffer = "byte list"

datatype js_number = Num rat | NaN | PosInfinity | NegInfinity

datatype js_value =
    Undefined
  | Null
  | Boolean bool
  | String string
  | Number js_number
  | Object

text \<open>\<^verbatim>\<open>typeof v === 'number'\<close>\<close>

fun typeof_number :: "js_value \<Rightarrow> bool" where
  "typeof_number (Number n) = True"
| "typeof_number v = False"

text \<open>A default parameter value replaces \<^verbatim>\<open>undefined\<close> only.\<close>

definition default_param :: "js_value \<Rightarrow> js_value \<Rightarrow> js_value" where
  "default_param v d = (if v = Undefined then d else v)"

text \<open>The comparisons of the source, between a number and a finite constant.\<close>

fun js_ge :: "js_number \<Rightarrow> rat \<Rightarrow> bool" where
  "js_ge (Num x) c = (x \<ge> c)"
| "js_ge NaN c = False"
| "js_ge PosInfinity c = True"
| "js_ge NegInfinity c = False"

fun js_le :: "js_number \<Rightarrow> rat \<Rightarrow> bool" where
  "js_le (Num x) c = (x \<le> c)"
| "js_le NaN c = False"
| "js_le PosInfinity c = False"
| "js_le NegInfinity c = True"

fun js_lt :: "js_number \<Rightarrow> rat \<Rightarrow> bool" where
  "js_lt (Num x) c = (x < c)"
| "js_lt NaN c = False"
| "js_lt PosInfinity c = False"
| "js_lt NegInfinity c = True"

text \<open>\<^verbatim>\<open>x > d\<close> for a finite \<open>x\<close> and any number \<open>d\<close>.\<close>

fun js_gt :: "rat \<Rightarrow> js_number \<Rightarrow> bool" where
  "js_gt x (Num d) = (x > d)"
| "js_gt x NaN = False"
| "js_gt x PosInfinity = False"
| "js_gt x NegInfinity = True"

text \<open>Every \<^verbatim>\<open>throw\<close> of the source, and the range and type errors of the Buffer methods it calls.\<close>

datatype error =
    Failed_to_get_VAD_size
  | Failed_to_allocate_VAD
  | Failed_to_initialise_VAD
  | Invalid_mode
  | AudioFrequency_must_be_a_number
  | AudioFrequency_must_be_8000_16000_32000_or_48000
  | DebounceTime_must_be_a_number
  | DebounceTime_must_be_greater_than_0
  | Error_in_VAD
  | RangeError
  | TypeError

text \<open>
  The outcome of a method that returns a promise: it throws before a promise exists, or
  the promise is rejected, or it is resolved with a value.
\<close>

datatype 'a result = Thrown error | Rejected error | Resolved 'a

text \<open>An exception thrown inside a \<^verbatim>\<open>then\<close> callback rejects the promise of the \<^verbatim>\<open>then\<close>.\<close>

fun in_then :: "'a result \<Rightarrow> 'a result" where
  "in_then (Thrown e) = Rejected e"
| "in_then r = r"

subsection \<open>Buffer methods\<close>

text \<open>\<^verbatim>\<open>Buffer.alloc(n)\<close>: \<open>n\<close> zero bytes.\<close>

definition alloc :: "nat \<Rightarrow> buffer" where
  "alloc n = replicate n 0"

text \<open>\<^verbatim>\<open>buf.slice(a, b)\<close> and \<^verbatim>\<open>buf.slice(a)\<close> for non-negative integer offsets.\<close>

definition buffer_slice :: "buffer \<Rightarrow> nat \<Rightarrow> nat \<Rightarrow> buffer" where
  "buffer_slice buf a b = take (b - a) (drop a buf)"

definition buffer_slice_from :: "buffer \<Rightarrow> nat \<Rightarrow> buffer" where
  "buffer_slice_from buf a = drop a buf"

text \<open>\<^verbatim>\<open>buf.readInt16LE(i)\<close>: a range error unless two bytes are there.\<close>

definition readInt16LE :: "buffer \<Rightarrow> nat \<Rightarrow> error + int" where
  "readInt16LE buf i =
     (if i + 2 \<le> length buf
      then (let u = uint (buf ! i) + 256 * uint (buf ! (i + 1))
            in Inr (if u \<ge> 32768 then u - 65536 else u))
      else Inl RangeError)"

text \<open>
  A single-precision float is kept as its 32-bit IEEE-754 pattern. \<^verbatim>\<open>readFloatLE\<close> takes
  four bytes, least significant first; \<^verbatim>\<open>writeFloatLE\<close> stores them. The pattern is
  copied bit for bit. Node passes the value through a JavaScript number, which may quiet
  a signalling NaN (the pattern 7f800001 is stored as 7fc00001); for every other pattern
  the copy is exact, and no property below reads the bytes of a NaN.
\<close>

type_synonym float32 = "32 word"

definition readFloatLE :: "buffer \<Rightarrow> nat \<Rightarrow> error + float32" where
  "readFloatLE buf i =
     (if i + 4 \<le> length buf
      then Inr (ucast (buf ! i) + push_bit 8 (ucast (buf ! (i + 1)))
                + push_bit 16 (ucast (buf ! (i + 2))) + push_bit 24 (ucast (buf ! (i + 3))))
      else Inl RangeError)"

definition float_bytes :: "float32 \<Rightarrow> buffer" where
  "float_bytes w = [ucast w, ucast (drop_bit 8 w), ucast (drop_bit 16 w), ucast (drop_bit 24 w)]"

definition writeFloatLE :: "buffer \<Rightarrow> float32 \<Rightarrow> nat \<Rightarrow> error +
    buffer" where
  "writeFloatLE buf w off =
     (if off + 4 \<le> length buf
      then Inr (take off buf @ float_bytes w @ drop (off + 4) buf)
      else Inl RangeError)"

text \<open>
  The single-precision pattern of \<open>k / 32768\<close> for a 16-bit sample \<open>k\<close>. The quotient has
  at most 16 significant bits, so the conversion is exact: with \<open>2 ^ e \<le> |k| < 2 ^ (e + 1)\<close>
  the biased exponent is \<open>e - 15 + 127\<close> and the fraction is \<open>|k| - 2 ^
      e\<close> moved to the top
  of the 23 fraction bits.
\<close>

fun msb :: "nat \<Rightarrow> nat" where
  "msb n = (if n < 2 then 0 else Suc (msb (n div 2)))"

declare msb.simps [simp del]

definition float32_of_sample :: "int \<Rightarrow> float32" where
  "float32_of_sample k =
     (if k = 0 then 0
      else (let a = nat \<bar>k\<bar>; e = msb a
            in (if k < 0 then push_bit 31 1 else 0)
               + push_bit 23 (of_nat (e + 112))
               + push_bit (23 - e) (of_nat (a - 2 ^ e))))"

section \<open>The class VAD\<close>

datatype vad_event = ERROR | SILENCE | VOICE | NOISE

text \<open>
  The native binding is not part of the JavaScript source; it is a parameter of the model.
  \<open>'v\<close> is the state of the native classifier that lives in the buffer \<^verbatim>\<open>_vad\<close>.
  \<^item> \<open>vad_alloc_size\<close> is \<^verbatim>\<open>vad_alloc(null)\<close>: the size to allocate, or \<open>None\<close> when the
    answer has its \<^verbatim>\<open>error\<close> field set;
  \<^item> \<open>vad_alloc\<close> and \<open>vad_init\<close> give \<open>None\<close> where the binding returns a falsy value;
  \<^item> \<open>vad_processAudioAsync\<close> classifies one float buffer and may change the classifier.
\<close>

record 'v binding =
  vad_alloc_size :: "nat option"
  vad_alloc :: "nat \<Rightarrow> 'v option"
  vad_init :: "'v \<Rightarrow> 'v option"
  vad_setmode :: "'v \<Rightarrow> js_number \<Rightarrow> 'v"
  vad_processAudioAsync :: "'v \<Rightarrow> buffer \<Rightarrow> rat \<Rightarrow> vad_event
      \<times> 'v"

text \<open>\<^verbatim>\<open>new VAD(mode)\<close>; the value is the classifier held in \<^verbatim>\<open>this._vad\<close>.\<close>

definition VAD_new :: "'v binding \<Rightarrow> js_value \<Rightarrow> error + 'v" where
  "VAD_new b mode =
     (case vad_alloc_size b of
        None \<Rightarrow> Inl Failed_to_get_VAD_size
      | Some sz \<Rightarrow>
          (case vad_alloc b sz of
             None \<Rightarrow> Inl Failed_to_allocate_VAD
           | Some v0 \<Rightarrow>
               (case vad_init b v0 of
                  None \<Rightarrow> Inl Failed_to_initialise_VAD
                | Some v1 \<Rightarrow>
                    (case mode of
                       Number m \<Rightarrow>
                         if \<not> (js_ge m 0 \<and> js_le m 3) then Inl Invalid_mode
                         else Inr (vad_setmode b v1 m)
                     | _ \<Rightarrow> Inl Invalid_mode))))"

text \<open>\<^verbatim>\<open>VAD.from16toFloatBuffer\<close>: the loop over \<open>i\<close>, then the function.\<close>

function from16_loop :: "buffer \<Rightarrow> buffer \<Rightarrow> nat \<Rightarrow> error +
    buffer" where
  "from16_loop buf floatData i =
     (if i < length buf
      then (case readInt16LE buf i of
              Inl e \<Rightarrow> Inl e
            | Inr intValue \<Rightarrow>
                (case writeFloatLE floatData (float32_of_sample intValue) (i * 2) of
                   Inl e \<Rightarrow> Inl e
                 | Inr floatData' \<Rightarrow> from16_loop buf floatData' (i + 2)))
      else Inr floatData)"
  by pat_completeness auto
termination
  by (relation "measure (\<lambda>(buf, floatData, i). length buf - i)") auto

definition VAD_from16toFloatBuffer :: "buffer \<Rightarrow> error + buffer" where
  "VAD_from16toFloatBuffer buf = from16_loop buf (alloc (length buf * 2)) 0"

text \<open>\<^verbatim>\<open>VAD.from32toFloatBuffer\<close>\<close>

function from32_loop :: "buffer \<Rightarrow> buffer \<Rightarrow> nat \<Rightarrow> error +
    buffer" where
  "from32_loop buf floatData i =
     (if i < length buf
      then (case readFloatLE buf i of
              Inl e \<Rightarrow> Inl e
            | Inr floatValue \<Rightarrow>
                (case writeFloatLE floatData floatValue (i * 4) of
                   Inl e \<Rightarrow> Inl e
                 | Inr floatData' \<Rightarrow> from32_loop buf floatData' (i + 4)))
      else Inr floatData)"
  by pat_completeness auto
termination
  by (relation "measure (\<lambda>(buf, floatData, i). length buf - i)") auto

definition VAD_from32toFloatBuffer :: "buffer \<Rightarrow> error + buffer" where
  "VAD_from32toFloatBuffer buf = from32_loop buf (alloc (length buf * 4)) 0"

text \<open>
  \<^verbatim>\<open>processAudio(buffer, rate, bits = 16)\<close>: the conversion can throw; otherwise the binding
  classifies the float buffer.
\<close>

definition VAD_processAudio ::
  "'v binding \<Rightarrow> 'v \<Rightarrow> buffer \<Rightarrow> rat \<Rightarrow> js_value
      \<Rightarrow> error + vad_event \<times> 'v" where
  "VAD_processAudio b v buf rate bits0 =
     (let bits = default_param bits0 (Number (Num 16))
      in if bits = Number (Num 32)
         then (case VAD_from32toFloatBuffer buf of
                 Inl e \<Rightarrow> Inl e
               | Inr floatData \<Rightarrow> Inr (vad_processAudioAsync b v floatData rate))
         else (case VAD_from16toFloatBuffer buf of
                 Inl e \<Rightarrow> Inl e
               | Inr floatData \<Rightarrow> Inr (vad_processAudioAsync b v floatData rate)))"

section \<open>The class VADStream\<close>

text \<open>The object pushed to the readable side for each frame.\<close>

record speech =
  speech_state :: bool
  speech_start :: bool
  speech_end :: bool
  speech_startTime :: rat
  speech_duration :: rat

record frame_event =
  time :: rat
  audioData :: buffer
  speech :: speech

text \<open>
  The fields of a stream. \<open>vad\<close> is the classifier of \<^verbatim>\<open>this.vad\<close>; \<open>buffer\<close> is \<open>None\<close> once
  the source has set it to \<^verbatim>\<open>null\<close>. \<open>chunkLength\<close> is a natural number: the constructor
  accepts four rates only and \<^verbatim>\<open>60 / timeMultiplier\<close> is 960, 1920, 3840 or 5760 on them
  (lemma \<open>VADStream_new_fields\<close>), so the floor in the constructor changes nothing.
\<close>

record 'v VADStream =
  vad :: 'v
  audioFrequency :: rat
  debounceTime :: js_number
  timeMultiplier :: rat
  chunkLength :: nat
  byteCount :: nat
  state :: bool
  startTime :: rat
  lastSpeech :: rat
  buffer :: "buffer option"

text \<open>
  \<^verbatim>\<open>new VADStream({mode, audioFrequency, debounceTime})\<close>: the three arguments are the
  properties of the options object, \<open>Undefined\<close> for one that is absent.
\<close>

definition VADStream_new ::
  "'v binding \<Rightarrow> js_value \<Rightarrow> js_value \<Rightarrow> js_value \<Rightarrow>
      error + 'v VADStream" where
  "VADStream_new b mode0 audioFrequency0 debounceTime0 =
     (let mode = default_param mode0 (Number (Num 0));
          audioFrequency = default_param audioFrequency0 (Number (Num 16000));
          debounceTime = default_param debounceTime0 (Number (Num 1000))
      in case VAD_new b mode of
           Inl e \<Rightarrow> Inl e
         | Inr v \<Rightarrow>
             if \<not> typeof_number audioFrequency then Inl AudioFrequency_must_be_a_number
             else if \<not> (audioFrequency = Number (Num 8000) \<or> audioFrequency = Number
                 (Num 16000)
                         \<or> audioFrequency = Number (Num 32000) \<or> audioFrequency = Number
                             (Num 48000))
             then Inl AudioFrequency_must_be_8000_16000_32000_or_48000
             else (case audioFrequency of
                     Number (Num f) \<Rightarrow>
                       (case debounceTime of
                          Number d \<Rightarrow>
                            if js_lt d 0 then Inl DebounceTime_must_be_greater_than_0
                            else (let tm = 1000 / f / 2
                                  in Inr \<lparr> vad = v, audioFrequency = f, debounceTime = d,
                                           timeMultiplier = tm,
                                           chunkLength = nat \<lfloor>60 / tm\<rfloor>,
                                           byteCount = 0, state = False, startTime = 0,
                                           lastSpeech = 0, buffer = Some (alloc 0) \<rparr>)
                        | _ \<Rightarrow> Inl DebounceTime_must_be_a_number)
                   | _ \<Rightarrow> Inl AudioFrequency_must_be_8000_16000_32000_or_48000))"

text \<open>
  \<^verbatim>\<open>_processAudio(chunk)\<close>. The result is the promise's outcome, \<open>Resolved ev\<close> when \<open>ev\<close> was
  pushed, together with the stream after the call.
\<close>

definition VADStream_processAudio ::
  "'v binding \<Rightarrow> 'v VADStream \<Rightarrow> buffer \<Rightarrow> frame_event result
      \<times> 'v VADStream" where
  "VADStream_processAudio b s chunk =
     (let time = timeMultiplier s * of_nat (byteCount s);
          s1 = s\<lparr>byteCount := byteCount s + length chunk\<rparr>
      in case VAD_processAudio b (vad s1) chunk (audioFrequency s1) Undefined of
           Inl e \<Rightarrow> (Thrown e, s1)
         | Inr (event, v') \<Rightarrow>
             (let s2 = s1\<lparr>vad := v'\<rparr>
              in if event = ERROR then (Rejected Error_in_VAD, s2)
                 else
                   (let startTime0 = startTime s2;
                        duration = (if state s2 then time - startTime s2 else 0)
                    in if event = VOICE then
                         (if \<not> state s2 then
                            (Resolved \<lparr> time = time, audioData = chunk,
                               speech = \<lparr> speech_state = True, speech_start = True,
                                          speech_end = False, speech_startTime = time,
                                          speech_duration = duration \<rparr> \<rparr>,
                             s2\<lparr>state := True, startTime := time, lastSpeech := time\<rparr>)
                          else
                            (Resolved \<lparr> time = time, audioData = chunk,
                               speech = \<lparr> speech_state = state s2, speech_start = False,
                                          speech_end = False, speech_startTime = startTime0,
                                          speech_duration = duration \<rparr> \<rparr>,
                             s2\<lparr>lastSpeech := time\<rparr>))
                       else if state s2 \<and> js_gt (time - lastSpeech s2) (debounceTime s2) then
                         (Resolved \<lparr> time = time, audioData = chunk,
                            speech = \<lparr> speech_state = False, speech_start = False,
                                       speech_end = True, speech_startTime = startTime0,
                                       speech_duration = duration \<rparr> \<rparr>,
                          s2\<lparr>state := False, startTime := 0\<rparr>)
                       else
                         (Resolved \<lparr> time = time, audioData = chunk,
                            speech = \<lparr> speech_state = state s2, speech_start = False,
                                       speech_end = False, speech_startTime = startTime0,
                                       speech_duration = duration \<rparr> \<rparr>,
                          s2))))"

text \<open>
  \<^verbatim>\<open>_chunkTransform(chunk, start)\<close>. The recursion of the source stops only when
  \<^verbatim>\<open>start + chunkLength < chunk.length\<close> fails, so it is a partial function: \<open>None\<close> is a
  promise chain that never settles. The value is the list of events pushed, the outcome
  and the stream after the call.
\<close>

partial_function (option) VADStream_chunkTransform ::
  "'v binding \<Rightarrow> 'v VADStream \<Rightarrow> buffer \<Rightarrow> nat
     \<Rightarrow> (frame_event list \<times> buffer result \<times> 'v VADStream) option" where
  "VADStream_chunkTransform b s chunk start =
     (let fin = start + chunkLength s
      in if fin < length chunk
         then (case VADStream_processAudio b s (buffer_slice chunk start fin) of
                 (Thrown e, s1) \<Rightarrow> Some ([], Thrown e, s1)
               | (Rejected e, s1) \<Rightarrow> Some ([], Rejected e, s1)
               | (Resolved ev, s1) \<Rightarrow>
                   Option.bind (VADStream_chunkTransform b s1 chunk fin)
                     (\<lambda>(evs, r, s2). Some (ev # evs, in_then r, s2)))
         else Some ([], Resolved (buffer_slice_from chunk start), s))"

declare VADStream_chunkTransform.simps [code]

text \<open>
  \<^verbatim>\<open>_transform(chunk, encoding, callback)\<close>. \<^verbatim>\<open>Buffer.concat\<close> throws a type error on
  \<^verbatim>\<open>null\<close>. \<open>Resolved ()\<close> is \<^verbatim>\<open>callback()\<close> and \<open>Rejected e\<close> is \<^verbatim>\<open>callback(error)\<close>; an
  exception thrown before the promise exists leaves the method.
\<close>

definition VADStream_transform ::
  "'v binding \<Rightarrow> 'v VADStream \<Rightarrow> buffer
     \<Rightarrow> (frame_event list \<times> unit result \<times> 'v VADStream) option" where
  "VADStream_transform b s chunk =
     (case buffer s of
        None \<Rightarrow> Some ([], Thrown TypeError, s)
      | Some buf \<Rightarrow>
          (case VADStream_chunkTransform b s (buf @ chunk) 0 of
             None \<Rightarrow> None
           | Some (evs, Resolved remaining, s1) \<Rightarrow>
               Some (evs, Resolved (), s1\<lparr>buffer := Some remaining\<rparr>)
           | Some (evs, Rejected e, s1) \<Rightarrow> Some
               (evs, Rejected e, s1\<lparr>buffer := None\<rparr>)
           | Some (evs, Thrown e, s1) \<Rightarrow> Some (evs, Thrown e, s1)))"

text \<open>
  A sequence of writes. A stream whose write failed is errored and takes no further
  write, so the run ends at the first write that does not call back without error.
\<close>

fun writes ::
  "'v binding \<Rightarrow> 'v VADStream \<Rightarrow> buffer list
     \<Rightarrow> (frame_event list \<times> unit result \<times> 'v VADStream) option" where
  "writes b s [] = Some ([], Resolved (), s)"
| "writes b s (chunk # chunks) =
     (case VADStream_transform b s chunk of
        None \<Rightarrow> None
      | Some (evs, Resolved u, s1) \<Rightarrow>
          (case writes b s1 chunks of
             None \<Rightarrow> None
           | Some (evs', r, s2) \<Rightarrow> Some (evs @ evs', r, s2))
      | Some (evs, r, s1) \<Rightarrow> Some (evs, r, s1))"

section \<open>Notions used to state the properties\<close>

text \<open>How a promise or a write ended, whichever way an error took.\<close>

fun settled :: "'a result \<Rightarrow> error + 'a" where
  "settled (Thrown e) = Inl e"
| "settled (Rejected e) = Inl e"
| "settled (Resolved x) = Inr x"

text \<open>The bytes a stream retains between writes: none once the buffer is \<^verbatim>\<open>null\<close>.\<close>

definition leftover :: "'v VADStream \<Rightarrow> buffer" where
  "leftover s = (case buffer s of None \<Rightarrow> [] | Some buf \<Rightarrow> buf)"

text \<open>
  The loop of \<^verbatim>\<open>_chunkTransform\<close> on one buffer, called at offset 0 with the stream \<open>s0\<close>:
  \<open>visits b chunk s0 evs s start\<close> holds when the loop calls itself at offset \<open>start\<close> with
  the stream \<open>s\<close>, after it has pushed the events \<open>evs\<close>.
\<close>

inductive visits ::
  "'v binding \<Rightarrow> buffer \<Rightarrow> 'v VADStream \<Rightarrow> frame_event list
      \<Rightarrow> 'v VADStream \<Rightarrow> nat \<Rightarrow> bool"
  for b chunk s0 where
  visits_start: "visits b chunk s0 [] s0 0"
| visits_frame:
    "visits b chunk s0 evs s start \<Longrightarrow> start + chunkLength s < length chunk
        \<Longrightarrow>
     VADStream_processAudio b s (buffer_slice chunk start (start + chunkLength s)) =
         (Resolved ev, s1) \<Longrightarrow>
     visits b chunk s0 (evs @ [ev]) s1 (start + chunkLength s)"

text \<open>
  The segment that is open after a list of events, read off the events alone: the time of
  the last event with start true, when no event with end true comes after it. It says
  which start frame a later frame belongs to without looking at the stream.
\<close>

fun open_segment :: "rat option \<Rightarrow> frame_event list \<Rightarrow> rat option" where
  "open_segment cur [] = cur"
| "open_segment cur (ev # evs) =
     open_segment (if speech_start (speech ev) then Some (time ev)
                   else if speech_end (speech ev) then None else cur) evs"

text \<open>
  The option table of the constructor in words: a mode is a number from 0 to 3, a rate
  is one of the four sample rates, a debounce time is a number that is not negative.
  \<^verbatim>\<open>NaN\<close> and \<^verbatim>\<open>Infinity\<close> are numbers for \<^verbatim>\<open>typeof\<close>, and neither is below 0.
\<close>

fun accepted_mode :: "js_value \<Rightarrow> bool" where
  "accepted_mode (Number (Num x)) = (0 \<le> x \<and> x \<le> 3)"
| "accepted_mode v = False"

fun accepted_audioFrequency :: "js_value \<Rightarrow> bool" where
  "accepted_audioFrequency (Number (Num x)) =
      (x = 8000 \<or> x = 16000 \<or> x = 32000 \<or> x = 48000)"
| "accepted_audioFrequency v = False"

fun accepted_debounceTime :: "js_value \<Rightarrow> bool" where
  "accepted_debounceTime (Number (Num x)) = (0 \<le> x)"
| "accepted_debounceTime (Number NaN) = True"
| "accepted_debounceTime (Number PosInfinity) = True"
| "accepted_debounceTime v = False"

subsection \<open>A classifier that follows a script\<close>

text \<open>
  Concrete inputs need a binding. This one allocates without failure and keeps as its
  state the list of answers it still has to give, one per call; it answers \<open>SILENCE\<close> once
  the list is used up. \<open>stream8000\<close> names the streams it drives at 8000 Hz with a debounce
  time of 0 (frames of 960 bytes, 1/16 ms per byte).
\<close>

fun scripted_classify :: "vad_event list \<Rightarrow> buffer \<Rightarrow> rat \<Rightarrow>
    vad_event \<times> vad_event list" where
  "scripted_classify [] floatData rate = (SILENCE, [])"
| "scripted_classify (e # es) floatData rate = (e, es)"

definition scripted_binding :: "vad_event list \<Rightarrow> vad_event list binding" where
  "scripted_binding script =
     \<lparr> vad_alloc_size = Some 0, vad_alloc = (\<lambda>n. Some script), vad_init = Some,
       vad_setmode = (\<lambda>v m. v), vad_processAudioAsync = scripted_classify \<rparr>"

definition stream8000 :: "vad_event list \<Rightarrow> nat \<Rightarrow> bool \<Rightarrow> rat
    \<Rightarrow> rat \<Rightarrow> buffer option \<Rightarrow> vad_event list VADStream" where
  "stream8000 v n st t0 t1 buf =
     \<lparr> vad = v, audioFrequency = 8000, debounceTime = Num 0, timeMultiplier = 1 / 16,
       chunkLength = 960, byteCount = n, state = st, startTime = t0, lastSpeech = t1,
       buffer = buf \<rparr>"

text \<open>
  \<open>event960 t st sta en t0 d\<close> is the event of a frame of 960 zero bytes at time \<open>t\<close> with
  the speech fields state, start, end, startTime and duration in this order.
\<close>

definition event960 :: "rat \<Rightarrow> bool \<Rightarrow> bool \<Rightarrow> bool \<Rightarrow>
    rat \<Rightarrow> rat \<Rightarrow> frame_event" where
  "event960 t st sta en t0 d =
     \<lparr> time = t, audioData = replicate 960 0,
       speech = \<lparr> speech_state = st, speech_start = sta, speech_end = en,
                  speech_startTime = t0, speech_duration = d \<rparr> \<rparr>"

section \<open>Lemmas\<close>

subsection \<open>One frame\<close>

lemma in_then_Resolved [simp]: "in_then r = Resolved x \<longleftrightarrow> r = Resolved x"
  by (cases r) auto

lemma Resolved_in_then [simp]: "Resolved x = in_then r \<longleftrightarrow> r = Resolved x"
  by (cases r) auto

lemma in_then_idem [simp]: "in_then (in_then r) = in_then r"
  by (cases r) auto

lemma step_fields:
  assumes "VADStream_processAudio b s chunk = (Resolved ev, s')"
  shows "time ev = timeMultiplier s * of_nat (byteCount s)"
    and "audioData ev = chunk"
    and "speech_state (speech ev) = state s'"
    and "speech_duration (speech ev) = (if state s then time ev - startTime s else 0)"
    and "speech_start (speech ev) \<longleftrightarrow> \<not> state s \<and> state s'"
    and "speech_end (speech ev) \<longleftrightarrow> state s \<and> \<not> state s'"
    and "speech_startTime (speech ev) = (if speech_start (speech ev) then time ev else startTime s)"
    and "startTime s' = (if speech_start (speech ev) then time ev else if speech_end (speech ev)
        then 0 else startTime s)"
  using assms
  by (auto simp: VADStream_processAudio_def Let_def split: sum.splits prod.splits if_splits)

lemma step_frame:
  assumes "VADStream_processAudio b s chunk = (r, s')"
  shows "chunkLength s' = chunkLength s" and "buffer s' = buffer s"
    and "byteCount s' = byteCount s + length chunk"
    and "timeMultiplier s' = timeMultiplier s" and "audioFrequency s' = audioFrequency s"
    and "debounceTime s' = debounceTime s"
  using assms
  by (auto simp: VADStream_processAudio_def Let_def split: sum.splits prod.splits if_splits)

lemma chunkTransform_done:
  "\<not> start + chunkLength s < length chunk \<Longrightarrow>
   VADStream_chunkTransform b s chunk start = Some ([], Resolved (drop start chunk), s)"
  by (subst VADStream_chunkTransform.simps) (simp add: buffer_slice_from_def)

lemma chunkTransform_Thrown:
  "start + chunkLength s < length chunk \<Longrightarrow>
   VADStream_processAudio b s (buffer_slice chunk start (start + chunkLength s)) = (Thrown e, s1)
       \<Longrightarrow>
   VADStream_chunkTransform b s chunk start = Some ([], Thrown e, s1)"
  by (subst VADStream_chunkTransform.simps) simp

lemma chunkTransform_Rejected:
  "start + chunkLength s < length chunk \<Longrightarrow>
   VADStream_processAudio b s (buffer_slice chunk start (start + chunkLength s)) =
       (Rejected e, s1) \<Longrightarrow>
   VADStream_chunkTransform b s chunk start = Some ([], Rejected e, s1)"
  by (subst VADStream_chunkTransform.simps) simp

lemma chunkTransform_Resolved:
  "start + chunkLength s < length chunk \<Longrightarrow>
   VADStream_processAudio b s (buffer_slice chunk start (start + chunkLength s)) =
       (Resolved ev, s1) \<Longrightarrow>
   VADStream_chunkTransform b s chunk start =
     Option.bind (VADStream_chunkTransform b s1 chunk (start + chunkLength s))
       (\<lambda>(evs, r, s2). Some (ev # evs, in_then r, s2))"
  by (subst VADStream_chunkTransform.simps) simp

lemma chunkTransform_cases [consumes 1, case_names finished thrown rejected resolved]:
  assumes "VADStream_chunkTransform b s chunk start = Some (evs, r, s')"
  obtains
    "\<not> start + chunkLength s < length chunk" "evs = []" "r = Resolved (drop start chunk)" "s'
        = s"
  | e where "start + chunkLength s < length chunk"
      "VADStream_processAudio b s (buffer_slice chunk start (start + chunkLength s)) =
          (Thrown e, s')"
      "evs = []" "r = Thrown e"
  | e where "start + chunkLength s < length chunk"
      "VADStream_processAudio b s (buffer_slice chunk start (start + chunkLength s)) =
          (Rejected e, s')"
      "evs = []" "r = Rejected e"
  | ev s1 evs' r' where "start + chunkLength s < length chunk"
      "VADStream_processAudio b s (buffer_slice chunk start (start + chunkLength s)) =
          (Resolved ev, s1)"
      "VADStream_chunkTransform b s1 chunk (start + chunkLength s) = Some (evs', r', s')"
      "evs = ev # evs'" "r = in_then r'"
proof (cases "start + chunkLength s < length chunk")
  case False
  from assms have "evs = [] \<and> r = Resolved (drop start chunk) \<and> s' = s"
    unfolding chunkTransform_done [OF False] by simp
  with False that(1) show thesis by blast
next
  case True
  obtain r0 s1 where pa: "VADStream_processAudio b s
      (buffer_slice chunk start (start + chunkLength s)) = (r0, s1)"
    by (cases "VADStream_processAudio b s (buffer_slice chunk start (start + chunkLength s))")
  show thesis
  proof (cases r0)
    case (Thrown e)
    from assms have "evs = [] \<and> r = Thrown e \<and> s' = s1"
      unfolding chunkTransform_Thrown [OF True pa [unfolded Thrown]] by simp
    with True pa Thrown that(2) show thesis by blast
  next
    case (Rejected e)
    from assms have "evs = [] \<and> r = Rejected e \<and> s' = s1"
      unfolding chunkTransform_Rejected [OF True pa [unfolded Rejected]] by simp
    with True pa Rejected that(3) show thesis by blast
  next
    case (Resolved ev)
    from assms obtain evs' r' where
      "VADStream_chunkTransform b s1 chunk (start + chunkLength s) = Some (evs', r', s')"
      "evs = ev # evs'" "r = in_then r'"
      unfolding chunkTransform_Resolved [OF True pa [unfolded Resolved]]
      by (auto simp: Option.bind_eq_Some_conv)
    with True pa Resolved that(4) show thesis by blast
  qed
qed

lemma chunkTransform_steps:
  assumes ct: "VADStream_chunkTransform b s chunk start = Some (evs, r, s')" and inv: "I s"
    and pres: "\<And>s c r s1. I s \<Longrightarrow> VADStream_processAudio b s c = (r, s1)
        \<Longrightarrow> I s1"
  shows "I s' \<and> (\<forall>ev\<in>set evs. \<exists>s0 c s1. I s0 \<and>
      VADStream_processAudio b s0 c = (Resolved ev, s1))"
  using ct inv
proof (induction evs arbitrary: s start r)
  case Nil
  from Nil.prems(1) Nil.prems(2) show ?case
    by (cases rule: chunkTransform_cases) (auto dest: pres)
next
  case (Cons ev evs)
  from Cons.prems(1) show ?case
  proof (cases rule: chunkTransform_cases)
    case (resolved ev' s1 evs' r')
    from Cons.prems(2) resolved(2) have "I s1" by (rule pres)
    moreover from resolved have "VADStream_chunkTransform b s1 chunk (start + chunkLength s) =
        Some (evs, r', s')"
      by simp
    ultimately have "I s' \<and>
        (\<forall>ev\<in>set evs. \<exists>s0 c s1. I s0 \<and> VADStream_processAudio b s0 c =
        (Resolved ev, s1))"
      using Cons.IH by blast
    moreover from resolved have "ev = ev'" by simp
    ultimately show ?thesis
      using resolved(2) Cons.prems(2) by auto
  qed simp_all
qed

lemma transform_steps:
  assumes run: "VADStream_transform b s w = Some (evs, r, s')" and inv: "I s"
    and pres: "\<And>s c r s1. I s \<Longrightarrow> VADStream_processAudio b s c = (r, s1)
        \<Longrightarrow> I s1"
    and buf: "\<And>s x. I s \<Longrightarrow> I (s\<lparr>buffer := x\<rparr>)"
  shows "I s' \<and> (\<forall>ev\<in>set evs. \<exists>s0 c s1. I s0 \<and>
      VADStream_processAudio b s0 c = (Resolved ev, s1))"
proof (cases "buffer s")
  case None
  with run inv show ?thesis by (simp add: VADStream_transform_def)
next
  case (Some rem)
  with run obtain r0 s0 where ct: "VADStream_chunkTransform b s (rem @ w) 0 = Some (evs, r0, s0)"
    by (auto simp: VADStream_transform_def split: option.splits result.splits)
  from ct inv pres
  have *: "I s0 \<and> (\<forall>ev\<in>set evs. \<exists>s0 c s1. I s0 \<and>
      VADStream_processAudio b s0 c = (Resolved ev, s1))"
    by (rule chunkTransform_steps)
  from run Some ct have "s' = s0 \<or> s' = s0\<lparr>buffer := None\<rparr> \<or>
      (\<exists>x. s' = s0\<lparr>buffer := Some x\<rparr>)"
    by (auto simp: VADStream_transform_def split: result.splits)
  with * buf show ?thesis by blast
qed

lemma writes_steps:
  assumes run: "writes b s ws = Some (evs, r, s')" and inv: "I s"
    and pres: "\<And>s c r s1. I s \<Longrightarrow> VADStream_processAudio b s c = (r, s1)
        \<Longrightarrow> I s1"
    and buf: "\<And>s x. I s \<Longrightarrow> I (s\<lparr>buffer := x\<rparr>)"
  shows "I s' \<and> (\<forall>ev\<in>set evs. \<exists>s0 c s1. I s0 \<and>
      VADStream_processAudio b s0 c = (Resolved ev, s1))"
  using run inv
proof (induction ws arbitrary: s evs)
  case Nil
  then show ?case by simp
next
  case (Cons w ws)
  from Cons.prems(1) obtain evs1 r1 s1 where tr: "VADStream_transform b s w = Some (evs1, r1, s1)"
    by (auto split: option.splits)
  from tr Cons.prems(2) pres buf
  have st: "I s1 \<and> (\<forall>ev\<in>set evs1. \<exists>s0 c s1. I s0 \<and>
      VADStream_processAudio b s0 c = (Resolved ev, s1))"
    by (rule transform_steps)
  show ?case
  proof (cases r1)
    case (Resolved u)
    with Cons.prems(1) tr obtain evs2 where w2: "writes b s1 ws = Some (evs2, r, s')" and "evs =
        evs1 @ evs2"
      by (auto split: option.splits)
    with Cons.IH [OF w2] st show ?thesis by auto
  next
    case (Thrown e)
    with Cons.prems(1) tr st show ?thesis by auto
  next
    case (Rejected e)
    with Cons.prems(1) tr st show ?thesis by auto
  qed
qed

lemma idle_startTime_step:
  "\<not> state s \<longrightarrow> startTime s = 0 \<Longrightarrow> VADStream_processAudio b s c
      = (r, s1) \<Longrightarrow>
   \<not> state s1 \<longrightarrow> startTime s1 = 0"
  by (auto simp: VADStream_processAudio_def Let_def split: sum.splits prod.splits if_splits)

subsection \<open>The sample converters\<close>

lemma from16_loop_even:
  "even (length buf) \<Longrightarrow> even i \<Longrightarrow> length floatData = 2 * length buf
      \<Longrightarrow>
   \<exists>f. from16_loop buf floatData i = Inr f \<and> length f = 2 * length buf"
proof (induction buf floatData i rule: from16_loop.induct)
  case (1 buf floatData i)
  show ?case
  proof (cases "i < length buf")
    case False
    with 1 show ?thesis by simp
  next
    case True
    with "1.prems" have i2: "i + 2 \<le> length buf"
      by (auto elim!: evenE)
    then obtain k where rd: "readInt16LE buf i = Inr k"
      by (simp add: readInt16LE_def Let_def)
    from i2 "1.prems" obtain fd where wr: "writeFloatLE floatData (float32_of_sample k) (i * 2) =
        Inr fd"
      and len: "length fd = 2 * length buf"
      by (simp add: writeFloatLE_def float_bytes_def)
    from "1.IH" [OF True rd wr] "1.prems" len
    have "\<exists>f. from16_loop buf fd (i + 2) = Inr f \<and> length f = 2 * length buf"
      by simp
    with True rd wr show ?thesis
      by (subst from16_loop.simps) simp
  qed
qed

lemma from16toFloatBuffer_even:
  "even (length buf) \<Longrightarrow> \<exists>f. VAD_from16toFloatBuffer buf = Inr f \<and>
      length f = 2 * length buf"
  unfolding VAD_from16toFloatBuffer_def by (rule from16_loop_even) (simp_all add: alloc_def)

lemma scripted_classify_any: "scripted_classify v f rate = scripted_classify v [] rate"
  by (cases v) simp_all

lemma scripted_processAudio:
  "even (length chunk) \<Longrightarrow>
   VAD_processAudio (scripted_binding sc) v chunk rate Undefined = Inr
       (scripted_classify v [] rate)"
  using from16toFloatBuffer_even [of chunk] scripted_classify_any [of v _ rate]
  by (auto simp: VAD_processAudio_def default_param_def scripted_binding_def)

lemma new8000:
  "VADStream_new (scripted_binding sc) Undefined (Number (Num 8000)) (Number (Num 0))
     = Inr (stream8000 sc 0 False 0 0 (Some []))"
  by (simp add: VADStream_new_def VAD_new_def default_param_def scripted_binding_def
      stream8000_def alloc_def)

lemma from32_loop_dvd:
  "4 dvd length buf \<Longrightarrow> 4 dvd i \<Longrightarrow> length floatData = 4 * length buf
      \<Longrightarrow>
   \<exists>f. from32_loop buf floatData i = Inr f \<and> length f = 4 * length buf"
proof (induction buf floatData i rule: from32_loop.induct)
  case (1 buf floatData i)
  show ?case
  proof (cases "i < length buf")
    case False
    with 1 show ?thesis by simp
  next
    case True
    with "1.prems" have i4: "i + 4 \<le> length buf"
      by presburger
    then obtain k where rd: "readFloatLE buf i = Inr k"
      by (simp add: readFloatLE_def)
    from i4 "1.prems" obtain fd where wr: "writeFloatLE floatData k (i * 4) = Inr fd"
      and len: "length fd = 4 * length buf"
      by (simp add: writeFloatLE_def float_bytes_def)
    from "1.IH" [OF True rd wr] "1.prems" len
    have "\<exists>f. from32_loop buf fd (i + 4) = Inr f \<and> length f = 4 * length buf"
      by simp
    with True rd wr show ?thesis
      by (subst from32_loop.simps) simp
  qed
qed

lemma from32toFloatBuffer_length:
  "4 dvd length buf \<Longrightarrow> \<exists>f. VAD_from32toFloatBuffer buf = Inr f \<and>
      length f = 4 * length buf"
  unfolding VAD_from32toFloatBuffer_def by (rule from32_loop_dvd) (simp_all add: alloc_def)

subsection \<open>The loop over the frames of a buffer\<close>

lemma settled_in_then [simp]: "settled (in_then r) = settled r"
  by (cases r) auto

lemma settled_Inr [simp]: "settled r = Inr x \<longleftrightarrow> r = Resolved x"
  by (cases r) auto

lemma processAudio_buffer:
  "VADStream_processAudio b (s\<lparr>buffer := x\<rparr>) c =
     (fst (VADStream_processAudio b s c), (snd (VADStream_processAudio b s c))\<lparr>buffer :=
         x\<rparr>)"
  by (simp add: VADStream_processAudio_def Let_def split: sum.splits prod.splits)

lemma chunkTransform_total:
  "0 < chunkLength s \<Longrightarrow> \<exists>evs r s'. VADStream_chunkTransform b s chunk start
      = Some (evs, r, s')"
proof (induction "length chunk - start" arbitrary: s start rule: less_induct)
  case less
  show ?case
  proof (cases "start + chunkLength s < length chunk")
    case False
    then show ?thesis by (simp add: chunkTransform_done)
  next
    case True
    obtain r0 s1 where pa: "VADStream_processAudio b s
        (buffer_slice chunk start (start + chunkLength s)) = (r0, s1)"
      by (cases "VADStream_processAudio b s (buffer_slice chunk start (start + chunkLength s))")
    show ?thesis
    proof (cases r0)
      case (Thrown e)
      with True pa show ?thesis by (simp add: chunkTransform_Thrown)
    next
      case (Rejected e)
      with True pa show ?thesis by (simp add: chunkTransform_Rejected)
    next
      case (Resolved ev)
      from pa have L: "chunkLength s1 = chunkLength s" by (rule step_frame)
      from True less.prems have "length chunk - (start + chunkLength s) < length chunk - start"
        by arith
      moreover from L less.prems have "0 < chunkLength s1" by simp
      ultimately obtain evs r s' where
        "VADStream_chunkTransform b s1 chunk (start + chunkLength s) = Some (evs, r, s')"
        using less.hyps [of "start + chunkLength s" s1] by blast
      with True pa Resolved show ?thesis by (simp add: chunkTransform_Resolved)
    qed
  qed
qed

lemma chunkTransform_frame:
  "VADStream_chunkTransform b s chunk start = Some (evs, r, s') \<Longrightarrow>
   chunkLength s' = chunkLength s \<and> buffer s' = buffer s \<and>
   byteCount s' = byteCount s +
       (length evs + (case r of Resolved x \<Rightarrow> 0 | _ \<Rightarrow> 1)) * chunkLength s"
proof (induction evs arbitrary: s start r)
  case Nil
  then show ?case
    by (cases rule: chunkTransform_cases) (auto dest: step_frame simp: buffer_slice_def)
next
  case (Cons ev evs)
  from Cons.prems show ?case
  proof (cases rule: chunkTransform_cases)
    case (resolved ev' s1 evs' r')
    with Cons.IH [of s1 "start + chunkLength s" r'] step_frame [OF resolved(2)]
    show ?thesis by (cases r') (auto simp: buffer_slice_def)
  qed simp_all
qed

lemma buffer_slice_append:
  "fin \<le> length a \<Longrightarrow> buffer_slice (a @ c) start fin = buffer_slice a start fin"
  by (simp add: buffer_slice_def)

lemma buffer_slice_drop: "buffer_slice (drop k c) start (start + n) = buffer_slice c (k + start)
    (k + start + n)"
  by (simp add: buffer_slice_def add.commute)

lemma chunkTransform_buffer:
  "0 < chunkLength s \<Longrightarrow>
   VADStream_chunkTransform b (s\<lparr>buffer := x\<rparr>) chunk start =
     map_option (\<lambda>(evs, r, s'). (evs, r, s'\<lparr>buffer := x\<rparr>))
         (VADStream_chunkTransform b s chunk start)"
proof (induction "length chunk - start" arbitrary: s start rule: less_induct)
  case less
  let ?s = "s\<lparr>buffer := x\<rparr>"
  have L: "chunkLength ?s = chunkLength s" by simp
  show ?case
  proof (cases "start + chunkLength s < length chunk")
    case False
    then have "\<not> start + chunkLength ?s < length chunk" by simp
    from chunkTransform_done [OF this] chunkTransform_done [OF False] show ?thesis
      by simp
  next
    case True
    then have True': "start + chunkLength ?s < length chunk" by simp
    obtain r0 s1 where pa: "VADStream_processAudio b s
        (buffer_slice chunk start (start + chunkLength s)) = (r0, s1)"
      by (cases "VADStream_processAudio b s (buffer_slice chunk start (start + chunkLength s))")
    then have pa': "VADStream_processAudio b ?s
        (buffer_slice chunk start (start + chunkLength ?s)) = (r0, s1\<lparr>buffer := x\<rparr>)"
      by (simp add: processAudio_buffer)
    show ?thesis
    proof (cases r0)
      case (Thrown e)
      from chunkTransform_Thrown [OF True pa [unfolded Thrown]]
        chunkTransform_Thrown [OF True' pa' [unfolded Thrown]]
      show ?thesis by simp
    next
      case (Rejected e)
      from chunkTransform_Rejected [OF True pa [unfolded Rejected]]
        chunkTransform_Rejected [OF True' pa' [unfolded Rejected]]
      show ?thesis by simp
    next
      case (Resolved ev)
      from pa have L1: "chunkLength s1 = chunkLength s" by (rule step_frame)
      from True less.prems have "length chunk - (start + chunkLength s) < length chunk - start"
        by arith
      moreover from L1 less.prems have "0 < chunkLength s1" by simp
      ultimately have IH: "VADStream_chunkTransform b (s1\<lparr>buffer := x\<rparr>) chunk
          (start + chunkLength s) =
        map_option (\<lambda>(evs, r, s'). (evs, r, s'\<lparr>buffer := x\<rparr>))
          (VADStream_chunkTransform b s1 chunk (start + chunkLength s))"
        by (rule less.hyps)
      from chunkTransform_Resolved [OF True pa [unfolded Resolved]]
        chunkTransform_Resolved [OF True' pa' [unfolded Resolved]] IH
      show ?thesis
        by (cases "VADStream_chunkTransform b s1 chunk (start + chunkLength s)") auto
    qed
  qed
qed

lemma chunkTransform_drop:
  "0 < chunkLength s \<Longrightarrow>
   VADStream_chunkTransform b s (drop k chunk) start = VADStream_chunkTransform b s chunk
       (k + start)"
proof (induction "length chunk - (k + start)" arbitrary: s start rule: less_induct)
  case less
  have lt: "start + chunkLength s < length (drop k chunk) \<longleftrightarrow> k + start +
      chunkLength s < length chunk"
    by auto
  show ?case
  proof (cases "k + start + chunkLength s < length chunk")
    case False
    with lt have "\<not> start + chunkLength s < length (drop k chunk)" by simp
    from chunkTransform_done [OF this] chunkTransform_done [OF False] show ?thesis
      by (simp add: add.commute)
  next
    case True
    with lt have True': "start + chunkLength s < length (drop k chunk)" by simp
    obtain r0 s1 where pa: "VADStream_processAudio b s
        (buffer_slice chunk (k + start) (k + start + chunkLength s)) = (r0, s1)"
      by (cases "VADStream_processAudio b s
          (buffer_slice chunk (k + start) (k + start + chunkLength s))")
    then have pa': "VADStream_processAudio b s
        (buffer_slice (drop k chunk) start (start + chunkLength s)) = (r0, s1)"
      by (simp add: buffer_slice_drop)
    show ?thesis
    proof (cases r0)
      case (Thrown e)
      from chunkTransform_Thrown [OF True pa [unfolded Thrown]]
        chunkTransform_Thrown [OF True' pa' [unfolded Thrown]]
      show ?thesis by simp
    next
      case (Rejected e)
      from chunkTransform_Rejected [OF True pa [unfolded Rejected]]
        chunkTransform_Rejected [OF True' pa' [unfolded Rejected]]
      show ?thesis by simp
    next
      case (Resolved ev)
      from pa have L1: "chunkLength s1 = chunkLength s" by (rule step_frame)
      from True less.prems
      have "length chunk - (k + (start + chunkLength s)) < length chunk - (k + start)"
        by arith
      moreover from L1 less.prems have "0 < chunkLength s1" by simp
      ultimately have "VADStream_chunkTransform b s1 (drop k chunk) (start + chunkLength s) =
        VADStream_chunkTransform b s1 chunk (k + (start + chunkLength s))"
        by (rule less.hyps)
      with chunkTransform_Resolved [OF True pa [unfolded Resolved]]
        chunkTransform_Resolved [OF True' pa' [unfolded Resolved]]
      show ?thesis by (simp add: add.assoc)
    qed
  qed
qed

lemma chunkTransform_append_failed:
  "VADStream_chunkTransform b s a start = Some (evs1, r1, s1) \<Longrightarrow> settled r1 = Inl e
      \<Longrightarrow>
   VADStream_chunkTransform b s (a @ c) start = Some (evs1, r1, s1)"
proof (induction evs1 arbitrary: s start r1)
  case Nil
  from Nil.prems(1) show ?case
  proof (cases rule: chunkTransform_cases)
    case finished
    with Nil.prems(2) show ?thesis by simp
  next
    case (thrown e')
    then show ?thesis
      by (simp add: chunkTransform_Thrown buffer_slice_append)
  next
    case (rejected e')
    then show ?thesis
      by (simp add: chunkTransform_Rejected buffer_slice_append)
  qed simp
next
  case (Cons ev evs1)
  from Cons.prems(1) show ?case
  proof (cases rule: chunkTransform_cases)
    case (resolved ev' s' evs' r')
    with Cons.prems(2) have "settled r' = Inl e" by simp
    with Cons.IH [of s' "start + chunkLength s" r'] resolved
    have "VADStream_chunkTransform b s' (a @ c) (start + chunkLength s) = Some (evs1, r', s1)"
      by simp
    moreover from resolved
    have "VADStream_processAudio b s (buffer_slice (a @ c) start (start + chunkLength s)) =
        (Resolved ev', s')"
      by (simp add: buffer_slice_append)
    moreover from resolved have "start + chunkLength s < length (a @ c)" by simp
    ultimately show ?thesis
      using resolved by (simp add: chunkTransform_Resolved)
  qed simp_all
qed

lemma chunkTransform_append_resolved:
  "VADStream_chunkTransform b s a start = Some (evs1, Resolved left, s1) \<Longrightarrow>
   0 < chunkLength s \<Longrightarrow> start \<le> length a \<Longrightarrow>
   \<exists>evs2 r2 s2 r. VADStream_chunkTransform b s1 (left @ c) 0 = Some (evs2, r2, s2)
      \<and> VADStream_chunkTransform b s (a @ c) start = Some (evs1 @ evs2, r, s2)
      \<and> settled r = settled r2"
proof (induction evs1 arbitrary: s start)
  case Nil
  from Nil.prems(1) show ?case
  proof (cases rule: chunkTransform_cases)
    case finished
    from Nil.prems(2) obtain evs2 r2 s2 where
      ct: "VADStream_chunkTransform b s (drop start a @ c) 0 = Some (evs2, r2, s2)"
      using chunkTransform_total by blast
    from Nil.prems(3) have "drop start (a @ c) = drop start a @ c" by simp
    with chunkTransform_drop [OF Nil.prems(2), of b start "a @ c" 0] ct
    have "VADStream_chunkTransform b s (a @ c) start = Some (evs2, r2, s2)" by simp
    with ct finished show ?thesis by auto
  qed simp_all
next
  case (Cons ev evs1)
  from Cons.prems(1) show ?case
  proof (cases rule: chunkTransform_cases)
    case (resolved ev' s' evs' r')
    from resolved(2) have L: "chunkLength s' = chunkLength s" by (rule step_frame)
    from resolved have "VADStream_chunkTransform b s' a (start + chunkLength s) = Some
        (evs1, Resolved left, s1)"
      by simp
    moreover from L Cons.prems(2) have "0 < chunkLength s'" by simp
    moreover from resolved(1) have "start + chunkLength s \<le> length a" by simp
    ultimately obtain evs2 r2 s2 r where
      ct2: "VADStream_chunkTransform b s1 (left @ c) 0 = Some (evs2, r2, s2)"
      and ct: "VADStream_chunkTransform b s' (a @ c) (start + chunkLength s) = Some
          (evs1 @ evs2, r, s2)"
      and st: "settled r = settled r2"
      using Cons.IH by blast
    from resolved
    have "VADStream_processAudio b s (buffer_slice (a @ c) start (start + chunkLength s)) =
        (Resolved ev', s')"
      by (simp add: buffer_slice_append)
    moreover from resolved have "start + chunkLength s < length (a @ c)" by simp
    ultimately have "VADStream_chunkTransform b s (a @ c) start = Some
        (ev' # evs1 @ evs2, in_then r, s2)"
      using ct by (simp add: chunkTransform_Resolved)
    with ct2 st resolved show ?thesis by auto
  qed simp_all
qed

lemma chunkTransform_bytes:
  "VADStream_chunkTransform b s chunk start = Some (evs, r, s') \<Longrightarrow> start \<le>
      length chunk \<Longrightarrow>
   (\<forall>ev\<in>set evs. length (audioData ev) = chunkLength s) \<and>
   (\<exists>rest. drop start chunk = concat (map audioData evs) @ rest \<and>
      (\<forall>left. r = Resolved left \<longrightarrow> left = rest \<and> length left \<le>
          chunkLength s))"
proof (induction evs arbitrary: s start r)
  case Nil
  from Nil.prems(1) show ?case
    by (cases rule: chunkTransform_cases) auto
next
  case (Cons ev evs)
  from Cons.prems(1) show ?case
  proof (cases rule: chunkTransform_cases)
    case (resolved ev' s1 evs' r')
    from resolved(2) have L: "chunkLength s1 = chunkLength s" by (rule step_frame)
    from resolved(2) have ad: "audioData ev' = buffer_slice chunk start (start + chunkLength s)"
      by (rule step_fields)
    from resolved(1) have "start + chunkLength s \<le> length chunk" by simp
    with Cons.IH [of s1 "start + chunkLength s" r'] resolved L
    obtain rest where all: "\<forall>ev\<in>set evs. length (audioData ev) = chunkLength s"
      and rest: "drop (start + chunkLength s) chunk = concat (map audioData evs) @ rest"
      and left: "\<forall>left. r' = Resolved left \<longrightarrow> left = rest \<and> length
          left \<le> chunkLength s"
      by auto
    have "drop start chunk = take (chunkLength s) (drop start chunk) @ drop (chunkLength s)
        (drop start chunk)"
      by (rule append_take_drop_id [symmetric])
    with rest ad have "drop start chunk = concat (map audioData (ev' # evs)) @ rest"
      by (simp add: buffer_slice_def add.commute)
    moreover from ad resolved(1) have "length (audioData ev') = chunkLength s"
      by (simp add: buffer_slice_def)
    ultimately show ?thesis using all left resolved
      by auto
  qed simp_all
qed

subsection \<open>Writes\<close>

lemma VADStream_new_fields:
  assumes "VADStream_new b m f d = Inr s"
  shows "chunkLength s \<in> {960, 1920, 3840, 5760}"
    and "of_nat (chunkLength s) = 60 / timeMultiplier s"
    and "timeMultiplier s = 1000 / audioFrequency s / 2"
    and "audioFrequency s \<in> {8000, 16000, 32000, 48000}"
    and "buffer s = Some []" and "byteCount s = 0" and "\<not> state s"
    and "startTime s = 0" and "lastSpeech s = 0"
  using assms
  by (auto simp: VADStream_new_def Let_def alloc_def split: sum.splits js_value.splits
      js_number.splits if_splits)

lemma writes_whole:
  "0 < chunkLength s \<Longrightarrow> buffer s = Some rem \<Longrightarrow> length rem \<le>
      chunkLength s \<Longrightarrow>
   VADStream_chunkTransform b s (rem @ concat ws) 0 = Some (evs0, r0, s0) \<Longrightarrow>
   \<exists>r s'. writes b s ws = Some (evs0, r, s') \<and>
     (case settled r0 of
        Inl e \<Rightarrow> settled r = Inl e
      | Inr left \<Rightarrow> r = Resolved () \<and> s' = s0\<lparr>buffer := Some left\<rparr>)"
proof (induction ws arbitrary: s rem evs0 r0 s0)
  case Nil
  from Nil.prems(3) have "\<not> 0 + chunkLength s < length rem" by simp
  from chunkTransform_done [OF this, of b] Nil.prems(4)
  have "evs0 = []" "r0 = Resolved rem" "s0 = s" by simp_all
  moreover from Nil.prems(2) have "s\<lparr>buffer := Some rem\<rparr> = s" by simp
  ultimately show ?case by simp
next
  case (Cons w ws)
  from Cons.prems(1) obtain evs1 r1 s1 where
    ct1: "VADStream_chunkTransform b s (rem @ w) 0 = Some (evs1, r1, s1)"
    using chunkTransform_total by blast
  show ?case
  proof (cases "settled r1")
    case (Inl e)
    from chunkTransform_append_failed [OF ct1 Inl, of "concat ws"] Cons.prems(4)
    have eq: "evs0 = evs1" "r0 = r1" "s0 = s1" by simp_all
    from ct1 Inl Cons.prems(2)
    obtain r s' where "VADStream_transform b s w = Some (evs1, r, s')" "settled r = Inl e"
      by (cases r1) (auto simp: VADStream_transform_def)
    with eq Inl show ?thesis by (cases r) auto
  next
    case (Inr left)
    then have r1: "r1 = Resolved left" by simp
    from chunkTransform_append_resolved [OF ct1 [unfolded r1] Cons.prems(1), of "concat ws"]
    obtain evs2 r2 s2 r where
      ct2: "VADStream_chunkTransform b s1 (left @ concat ws) 0 = Some (evs2, r2, s2)"
      and ct: "VADStream_chunkTransform b s (rem @ w @ concat ws) 0 = Some (evs1 @ evs2, r, s2)"
      and st: "settled r = settled r2"
      by auto
    from ct Cons.prems(4) have eq: "evs0 = evs1 @ evs2" "r0 = r" "s0 = s2" by simp_all
    let ?s1 = "s1\<lparr>buffer := Some left\<rparr>"
    from ct1 r1 Cons.prems(2) have tr: "VADStream_transform b s w = Some (evs1, Resolved (), ?s1)"
      by (simp add: VADStream_transform_def)
    from chunkTransform_frame [OF ct1] Cons.prems(1) have L1: "0 < chunkLength s1" "chunkLength s1
        = chunkLength s"
      by simp_all
    from chunkTransform_bytes [OF ct1] r1 have len: "length left \<le> chunkLength s"
      by auto
    from chunkTransform_buffer [OF L1(1), of b "Some left" "left @ concat ws" 0] ct2
    have ct2': "VADStream_chunkTransform b ?s1 (left @ concat ws) 0 = Some
        (evs2, r2, s2\<lparr>buffer := Some left\<rparr>)"
      by simp
    from L1 len have "0 < chunkLength ?s1" "buffer ?s1 = Some left" "length left \<le> chunkLength
        ?s1"
      by simp_all
    from Cons.IH [OF this ct2']
    obtain r' s' where w2: "writes b ?s1 ws = Some (evs2, r', s')"
      and rel: "case settled r2 of Inl e \<Rightarrow> settled r' = Inl e
                | Inr left2 \<Rightarrow> r' = Resolved () \<and> s' = s2\<lparr>buffer := Some
                    left, buffer := Some left2\<rparr>"
      by auto
    from tr w2 have "writes b s (w # ws) = Some (evs1 @ evs2, r', s')" by simp
    with rel eq st show ?thesis
      by (cases "settled r2") auto
  qed
qed

lemma visits_Rejected:
  "visits b chunk s0 evs s start \<Longrightarrow>
   VADStream_chunkTransform b s chunk start = Some (evs', Rejected e, s') \<Longrightarrow>
   VADStream_chunkTransform b s0 chunk 0 = Some (evs @ evs', Rejected e, s')"
proof (induction arbitrary: evs' rule: visits.induct)
  case visits_start
  then show ?case by simp
next
  case (visits_frame evs s start ev s1)
  from visits_frame.hyps(2,3) visits_frame.prems
  have "VADStream_chunkTransform b s chunk start = Some (ev # evs', Rejected e, s')"
    by (simp add: chunkTransform_Resolved)
  from visits_frame.IH [OF this] show ?case by simp
qed

lemma processAudio_ERROR:
  assumes "VAD_processAudio b (vad s) frame (audioFrequency s) Undefined = Inr (ERROR, v')"
  shows "VADStream_processAudio b s frame
           = (Rejected Error_in_VAD, s\<lparr>byteCount := byteCount s + length frame, vad :=
               v'\<rparr>)"
  using assms by (simp add: VADStream_processAudio_def Let_def)

lemma VADStream_new_ready:
  assumes "VADStream_new b m f d = Inr s"
  shows "0 < chunkLength s" and "buffer s = Some []"
  using VADStream_new_fields(1,5) [OF assms] by auto

lemma leftover_at_most_one_frame:
  assumes "VADStream_new b m f d = Inr s" and "writes b s ws = Some (evs, Resolved (), s')"
  shows "\<exists>left. buffer s' = Some left \<and> length left \<le> chunkLength s"
proof -
  note ready = VADStream_new_ready [OF assms(1)]
  from ready(1) obtain evs0 r0 s0 where
    ct: "VADStream_chunkTransform b s ([] @ concat ws) 0 = Some (evs0, r0, s0)"
    using chunkTransform_total by blast
  from writes_whole [OF ready(1) ready(2) _ ct] assms(2)
  have rel: "case settled r0 of Inl e \<Rightarrow> settled (Resolved () :: unit result) = Inl e
             | Inr left \<Rightarrow> s' = s0\<lparr>buffer := Some left\<rparr>"
    by (cases "settled r0") auto
  then obtain left where r0: "r0 = Resolved left" and s': "s' = s0\<lparr>buffer := Some
      left\<rparr>"
    by (cases r0) auto
  from chunkTransform_bytes [OF ct] r0 have "length left \<le> chunkLength s"
    by auto
  with s' show ?thesis by simp
qed

subsection \<open>The constructor\<close>

lemma VAD_new_throws:
  assumes "vad_alloc_size b = Some n" and "vad_alloc b n = Some v0" and "vad_init b v0 = Some v1"
  shows "isl (VAD_new b mode) \<longleftrightarrow> \<not> accepted_mode mode"
  using assms by (cases mode rule: accepted_mode.cases) (simp_all add: VAD_new_def)

lemma VADStream_new_after_VAD:
  assumes "VAD_new b (default_param m (Number (Num 0))) = Inr v"
  shows "isl (VADStream_new b m f d) \<longleftrightarrow>
         \<not> (accepted_audioFrequency (default_param f (Number (Num 16000)))
            \<and> accepted_debounceTime (default_param d (Number (Num 1000))))"
proof (cases "default_param f (Number (Num 16000))" rule: accepted_audioFrequency.cases)
  case (1 x)
  show ?thesis
  proof (cases "x = 8000 \<or> x = 16000 \<or> x = 32000 \<or> x = 48000")
    case False
    with 1 assms show ?thesis by (simp add: VADStream_new_def)
  next
    case True
    with 1 assms show ?thesis
      by (cases "default_param d (Number (Num 1000))" rule: accepted_debounceTime.cases)
         (simp_all add: VADStream_new_def Let_def)
  qed
qed (use assms in \<open>simp_all add: VADStream_new_def\<close>)

section \<open>Concrete runs\<close>

declare writes.simps [simp del]

lemma msb_example: "msb 16384 = 14"
  by (simp add: msb.simps)

lemma float32_example: "float32_of_sample 16384 = 0x3F000000"
  by (simp add: float32_of_sample_def msb_example)

lemma from16_example: "VAD_from16toFloatBuffer [0, 64] = Inr [0, 0, 0, 63]"
  by (simp add: VAD_from16toFloatBuffer_def alloc_def readInt16LE_def writeFloatLE_def
        float_bytes_def float32_example)

lemmas run_simps =
  writes.simps VADStream_transform_def stream8000_def event960_def chunkTransform_done
      chunkTransform_Resolved
  chunkTransform_Rejected VADStream_processAudio_def scripted_processAudio buffer_slice_def

lemma run_voice_silence:
  "writes (scripted_binding [VOICE, SILENCE]) (stream8000 [VOICE, SILENCE] 0 False 0 0 (Some []))
      [replicate 1921 0]
   = Some ([(event960 0 True True False 0 0), (event960 60 False False True 0 60)], Resolved (),
       (stream8000 [] 1920 False 0 0 (Some [0])))"
  by (simp add: run_simps)

lemma run_two_writes:
  "writes (scripted_binding [VOICE, SILENCE]) (stream8000 [VOICE, SILENCE] 0 False 0 0 (Some []))
      [replicate 1000 0, replicate 921 0]
   = Some ([(event960 0 True True False 0 0), (event960 60 False False True 0 60)], Resolved (),
       (stream8000 [] 1920 False 0 0 (Some [0])))"
  by (simp add: run_simps replicate_add [symmetric])

lemma run_silence_voice_voice:
  "writes (scripted_binding [SILENCE, VOICE, VOICE])
      (stream8000 [SILENCE, VOICE, VOICE] 0 False 0 0 (Some [])) [replicate 2881 0]
   = Some ([(event960 0 False False False 0 0), (event960 60 True True False 60 0),
       (event960 120 True False False 60 60)], Resolved (),
       (stream8000 [] 2880 True 60 120 (Some [0])))"
  by (simp add: run_simps)

lemma run_silence_error:
  "writes (scripted_binding [SILENCE, ERROR]) (stream8000 [SILENCE, ERROR] 0 False 0 0 (Some []))
      [replicate 2881 0]
   = Some ([(event960 0 False False False 0 0)], Rejected Error_in_VAD,
       (stream8000 [] 1920 False 0 0 None))"
  by (simp add: run_simps)

lemma run_silence_voice_silence:
  "writes (scripted_binding [SILENCE, VOICE, SILENCE])
      (stream8000 [SILENCE, VOICE, SILENCE] 0 False 0 0 (Some [])) [replicate 2881 0]
   = Some ([(event960 0 False False False 0 0), (event960 60 True True False 60 0),
       (event960 120 False False True 60 60)], Resolved (),
       (stream8000 [] 2880 False 0 60 (Some [0])))"
  by (simp add: run_simps)

lemma run_silence_voice_voice_voice_silence:
  "writes (scripted_binding [SILENCE, VOICE, VOICE, VOICE, SILENCE])
      (stream8000 [SILENCE, VOICE, VOICE, VOICE, SILENCE] 0 False 0 0 (Some []))
      [replicate 4801 0]
   = Some ([(event960 0 False False False 0 0), (event960 60 True True False 60 0),
       (event960 120 True False False 60 60), (event960 180 True False False 60 120),
       (event960 240 False False True 60 180)], Resolved (),
       (stream8000 [] 4800 False 0 180 (Some [0])))"
  by (simp add: run_simps)

section \<open>The states a run goes through\<close>

text \<open>
  A frame whose length is even is never refused by the converter, so a frame of a stream
  made by the constructor ends in an event or in the rejection \<open>Error in VAD\<close>, which
  leaves the stream with the byte count and the classifier advanced and nothing else
  changed.
\<close>

lemma processAudio_not_Thrown:
  "even (length c) \<Longrightarrow> VADStream_processAudio b s c \<noteq> (Thrown e, s1)"
  using from16toFloatBuffer_even [of c]
  by (auto simp: VADStream_processAudio_def VAD_processAudio_def default_param_def Let_def
      split: sum.splits prod.splits if_splits)

lemma processAudio_Rejected:
  assumes "VADStream_processAudio b s c = (Rejected e, s1)"
  shows "e = Error_in_VAD \<and>
    (\<exists>v'. VAD_processAudio b (vad s) c (audioFrequency s) Undefined = Inr (ERROR, v')
        \<and> s1 = s\<lparr>byteCount := byteCount s + length c, vad := v'\<rparr>)"
  using assms
  by (auto simp: VADStream_processAudio_def Let_def split: sum.splits prod.splits if_splits)

lemma chunkTransform_not_Thrown:
  assumes "VADStream_chunkTransform b s chunk start = Some (evs, r, s')" and "even
      (chunkLength s)"
  shows "r \<noteq> Thrown e"
  using assms(1)
proof (cases rule: chunkTransform_cases)
  case (thrown e')
  from thrown(1) assms(2) have "even (length (buffer_slice chunk start (start + chunkLength s)))"
    by (simp add: buffer_slice_def)
  with thrown(2) show ?thesis by (simp add: processAudio_not_Thrown)
next
  case (resolved ev s1 evs' r')
  then show ?thesis by (cases r') simp_all
qed simp_all

text \<open>
  The stream at a visit is fixed by the events pushed before it, and its frame length,
  offset, byte count and time multiplier are those of the start.
\<close>

inductive_cases visits_NilE: "visits b chunk s0 [] t k"

inductive_cases visits_snocE: "visits b chunk s0 (evs @ [ev]) t k"

lemma visits_unique:
  "visits b chunk s0 evs s start \<Longrightarrow> visits b chunk s0 evs t k \<Longrightarrow>
   t = s \<and> k = start"
proof (induction arbitrary: t k rule: visits.induct)
  case visits_start
  then show ?case by (auto elim: visits_NilE)
next
  case (visits_frame evs s start ev s1)
  from visits_frame.prems obtain s' start' where
    v: "visits b chunk s0 evs s' start'"
    and pa: "VADStream_processAudio b s' (buffer_slice chunk start' (start' + chunkLength s')) =
         (Resolved ev, t)"
    and k: "k = start' + chunkLength s'"
    by (auto elim: visits_snocE)
  from visits_frame.IH [OF v] have "s' = s" "start' = start" by simp_all
  with pa k visits_frame.hyps(3) show ?case by simp
qed

lemma visits_frame_facts:
  "visits b chunk s0 evs s start \<Longrightarrow>
   chunkLength s = chunkLength s0 \<and> start = length evs * chunkLength s0
   \<and> byteCount s = byteCount s0 + start \<and> timeMultiplier s = timeMultiplier s0
   \<and> audioFrequency s = audioFrequency s0"
proof (induction rule: visits.induct)
  case visits_start
  show ?case by simp
next
  case (visits_frame evs s start ev s1)
  from step_frame [OF visits_frame.hyps(3)] visits_frame.hyps(2) visits_frame.IH
  show ?case by (simp add: buffer_slice_def)
qed

text \<open>
  The start time held by the stream is the one read off the events: 0 and not speaking
  when no segment is open, speaking since the time of the open segment's start frame
  otherwise.
\<close>

lemma open_segment_snoc:
  "open_segment cur (evs @ [ev]) =
     (if speech_start (speech ev) then Some (time ev)
      else if speech_end (speech ev) then None else open_segment cur evs)"
  by (induction evs arbitrary: cur) simp_all

lemma open_segment_Some:
  "open_segment None evs = Some t \<Longrightarrow>
   \<exists>pre e0 mid. evs = pre @ e0 # mid \<and> speech_start (speech e0) \<and> time e0 = t
      \<and> (\<forall>e\<in>set mid. \<not> speech_start (speech e) \<and> \<not> speech_end
          (speech e))"
proof (induction evs arbitrary: t rule: rev_induct)
  case Nil
  then show ?case by simp
next
  case (snoc ev evs)
  show ?case
  proof (cases "speech_start (speech ev)")
    case True
    with snoc.prems have "time ev = t" by (simp add: open_segment_snoc)
    with True have "evs @ [ev] = evs @ ev # [] \<and> speech_start (speech ev) \<and> time ev = t
      \<and> (\<forall>e\<in>set []. \<not> speech_start (speech e) \<and> \<not> speech_end
          (speech e))"
      by simp
    then show ?thesis by blast
  next
    case False
    with snoc.prems have noend: "\<not> speech_end (speech ev)"
      and "open_segment None evs = Some t"
      by (simp_all add: open_segment_snoc split: if_splits)
    from snoc.IH [OF this(2)] obtain pre e0 mid where
      "evs = pre @ e0 # mid" "speech_start (speech e0)" "time e0 = t"
      "\<forall>e\<in>set mid. \<not> speech_start (speech e) \<and> \<not> speech_end (speech e)"
      by blast
    with False noend have "evs @ [ev] = pre @ e0 # (mid @ [ev]) \<and> speech_start (speech e0)
        \<and> time e0 = t
      \<and> (\<forall>e\<in>set (mid @ [ev]). \<not> speech_start (speech e) \<and> \<not>
          speech_end (speech e))"
      by simp
    then show ?thesis by blast
  qed
qed

lemma visits_open_segment:
  "visits b chunk s0 evs s start \<Longrightarrow> \<not> state s0 \<Longrightarrow>
   startTime s0 = 0 \<Longrightarrow>
   (case open_segment None evs of
      None \<Rightarrow> \<not> state s \<and> startTime s = 0
    | Some t \<Rightarrow> state s \<and> startTime s = t)"
proof (induction rule: visits.induct)
  case visits_start
  then show ?case by simp
next
  case (visits_frame evs s start ev s1)
  note f = step_fields [OF visits_frame.hyps(3)]
  from visits_frame.IH [OF visits_frame.prems] f(5,6,8)
  show ?case
    by (cases "open_segment None evs") (auto simp: open_segment_snoc)
qed

text \<open>
  Every event of a run, and the frame that made a run fail, is met by the loop on the
  concatenation of the writes.
\<close>

lemma chunkTransform_visits_event:
  "VADStream_chunkTransform b s chunk st = Some (pre @ ev # post, r, s') \<Longrightarrow>
   visits b chunk s0 evs s st \<Longrightarrow>
   \<exists>sk stk s1. visits b chunk s0 (evs @ pre) sk stk
      \<and> stk + chunkLength sk < length chunk
      \<and> VADStream_processAudio b sk (buffer_slice chunk stk (stk + chunkLength sk)) =
          (Resolved ev, s1)
      \<and> visits b chunk s0 (evs @ pre @ [ev]) s1 (stk + chunkLength sk)"
proof (induction pre arbitrary: s st evs r)
  case Nil
  from Nil.prems(1) show ?case
  proof (cases rule: chunkTransform_cases)
    case (resolved ev' s1 evs' r')
    then have pa: "VADStream_processAudio b s (buffer_slice chunk st (st + chunkLength s)) =
        (Resolved ev, s1)"
      by simp
    from visits_frame [OF Nil.prems(2) resolved(1) pa] Nil.prems(2) resolved(1) pa
    show ?thesis by auto
  qed simp_all
next
  case (Cons p pre)
  from Cons.prems(1) show ?case
  proof (cases rule: chunkTransform_cases)
    case (resolved ev' s1 evs' r')
    then have pa: "VADStream_processAudio b s (buffer_slice chunk st (st + chunkLength s)) =
        (Resolved p, s1)"
      and ct: "VADStream_chunkTransform b s1 chunk (st + chunkLength s) = Some
          (pre @ ev # post, r', s')"
      by simp_all
    from visits_frame [OF Cons.prems(2) resolved(1) pa]
    have "visits b chunk s0 (evs @ [p]) s1 (st + chunkLength s)" .
    from Cons.IH [OF ct this] show ?thesis by simp
  qed simp_all
qed

lemma chunkTransform_visits_Rejected:
  "VADStream_chunkTransform b s chunk st = Some (evs', Rejected e, s') \<Longrightarrow>
   even (chunkLength s) \<Longrightarrow> visits b chunk s0 evs s st \<Longrightarrow>
   \<exists>sk stk. visits b chunk s0 (evs @ evs') sk stk
      \<and> stk + chunkLength sk < length chunk
      \<and> VADStream_processAudio b sk (buffer_slice chunk stk (stk + chunkLength sk)) =
          (Rejected e, s')"
proof (induction evs' arbitrary: s st evs)
  case Nil
  from Nil.prems(1) show ?case
  proof (cases rule: chunkTransform_cases)
    case (rejected e')
    with Nil.prems(3) show ?thesis by auto
  qed simp_all
next
  case (Cons p evs')
  from Cons.prems(1) show ?case
  proof (cases rule: chunkTransform_cases)
    case (resolved ev' s1 evs'' r')
    then have pa: "VADStream_processAudio b s (buffer_slice chunk st (st + chunkLength s)) =
        (Resolved p, s1)"
      and ct: "VADStream_chunkTransform b s1 chunk (st + chunkLength s) = Some (evs', r', s')"
      by simp_all
    from step_frame(1) [OF pa] Cons.prems(2) have ev1: "even (chunkLength s1)" by simp
    from chunkTransform_not_Thrown [OF ct ev1, of e] resolved(5) have "r' = Rejected e"
      by (cases r') simp_all
    with ct have ct': "VADStream_chunkTransform b s1 chunk (st + chunkLength s) = Some
        (evs', Rejected e, s')"
      by simp
    from visits_frame [OF Cons.prems(3) resolved(1) pa]
    have "visits b chunk s0 (evs @ [p]) s1 (st + chunkLength s)" .
    from Cons.IH [OF ct' ev1 this] show ?thesis by simp
  qed simp_all
qed

lemma transform_not_Thrown:
  assumes "VADStream_transform b s w = Some (evs, r, s')" and "buffer s = Some rem"
    and "even (chunkLength s)"
  shows "r \<noteq> Thrown e" and "chunkLength s' = chunkLength s"
    and "r = Resolved () \<Longrightarrow> \<exists>left. buffer s' = Some left"
proof -
  from assms(1,2) obtain r0 s0 where
    ct: "VADStream_chunkTransform b s (rem @ w) 0 = Some (evs, r0, s0)"
    by (auto simp: VADStream_transform_def split: option.splits result.splits)
  note nt = chunkTransform_not_Thrown [OF ct assms(3)]
  note fr = chunkTransform_frame [OF ct]
  from ct assms(1,2) nt show "r \<noteq> Thrown e"
    by (cases r0) (auto simp: VADStream_transform_def)
  from ct assms(1,2) fr show "chunkLength s' = chunkLength s"
    by (cases r0) (auto simp: VADStream_transform_def)
  from ct assms(1,2) show "\<exists>left. buffer s' = Some left" if "r = Resolved ()"
    using that by (cases r0) (auto simp: VADStream_transform_def)
qed

lemma writes_not_Thrown:
  "writes b s ws = Some (evs, r, s') \<Longrightarrow> buffer s = Some rem \<Longrightarrow>
   even (chunkLength s) \<Longrightarrow>
   r \<noteq> Thrown e"
proof (induction ws arbitrary: s evs rem)
  case Nil
  then show ?case by (auto simp: writes.simps)
next
  case (Cons w ws)
  from Cons.prems(1) obtain evs1 r1 s1 where tr: "VADStream_transform b s w = Some (evs1, r1, s1)"
    by (auto simp: writes.simps split: option.splits)
  note t = transform_not_Thrown [OF tr Cons.prems(2,3)]
  show ?case
  proof (cases r1)
    case (Resolved u)
    with Cons.prems(1) tr obtain evs2 where w2: "writes b s1 ws = Some (evs2, r, s')"
      by (auto simp: writes.simps split: option.splits)
    from t(3) Resolved obtain left where "buffer s1 = Some left" by auto
    from Cons.IH [OF w2 this] t(2) Cons.prems(3) show ?thesis by simp
  next
    case (Thrown e')
    with t(1) [of e'] show ?thesis by simp
  next
    case (Rejected e')
    with Cons.prems(1) tr show ?thesis by (auto simp: writes.simps)
  qed
qed

lemma writes_failed_state:
  "0 < chunkLength s \<Longrightarrow> buffer s = Some rem \<Longrightarrow>
   length rem \<le> chunkLength s \<Longrightarrow>
   VADStream_chunkTransform b s (rem @ concat ws) 0 = Some (evs0, r0, s0) \<Longrightarrow>
   writes b s ws = Some (evs, Rejected e, s') \<Longrightarrow>
   s' = s0\<lparr>buffer := None\<rparr>"
proof (induction ws arbitrary: s rem evs0 r0 s0 evs)
  case Nil
  then show ?case by (simp add: writes.simps)
next
  case (Cons w ws)
  from Cons.prems(1) obtain evs1 r1 s1 where
    ct1: "VADStream_chunkTransform b s (rem @ w) 0 = Some (evs1, r1, s1)"
    using chunkTransform_total by blast
  show ?case
  proof (cases r1)
    case (Thrown e1)
    with ct1 Cons.prems(2,5) show ?thesis
      by (simp add: writes.simps VADStream_transform_def)
  next
    case (Rejected e1)
    then have "settled r1 = Inl e1" by simp
    from chunkTransform_append_failed [OF ct1 this, of "concat ws"] Cons.prems(4)
    have "s0 = s1" by simp
    with ct1 Rejected Cons.prems(2,5) show ?thesis
      by (simp add: writes.simps VADStream_transform_def)
  next
    case (Resolved left)
    from chunkTransform_append_resolved [OF ct1 [unfolded Resolved] Cons.prems(1), of "concat ws"]
    obtain evs2 r2 s2 r where
      ct2: "VADStream_chunkTransform b s1 (left @ concat ws) 0 = Some (evs2, r2, s2)"
      and ct: "VADStream_chunkTransform b s (rem @ w @ concat ws) 0 = Some (evs1 @ evs2, r, s2)"
      by auto
    from ct Cons.prems(4) have eq: "s0 = s2" by simp
    let ?s1 = "s1\<lparr>buffer := Some left\<rparr>"
    from ct1 Resolved Cons.prems(2) have tr: "VADStream_transform b s w = Some
        (evs1, Resolved (), ?s1)"
      by (simp add: VADStream_transform_def)
    from chunkTransform_frame [OF ct1] Cons.prems(1)
    have L1: "0 < chunkLength s1" "chunkLength s1 = chunkLength s"
      by simp_all
    from chunkTransform_bytes [OF ct1] Resolved have len: "length left \<le> chunkLength s"
      by auto
    from chunkTransform_buffer [OF L1(1), of b "Some left" "left @ concat ws" 0] ct2
    have ct2': "VADStream_chunkTransform b ?s1 (left @ concat ws) 0
                  = Some (evs2, r2, s2\<lparr>buffer := Some left\<rparr>)"
      by simp
    from L1 len have pre: "0 < chunkLength ?s1" "buffer ?s1 = Some left"
      "length left \<le> chunkLength ?s1"
      by simp_all
    from tr Cons.prems(5) obtain evs' where w2: "writes b ?s1 ws = Some (evs', Rejected e, s')"
      by (auto simp: writes.simps split: option.splits)
    from Cons.IH [OF pre ct2' w2] eq show ?thesis by simp
  qed
qed

lemma length_concat_frames:
  "\<forall>ev\<in>set evs. length (audioData ev) = n \<Longrightarrow> length
      (concat (map audioData evs)) = length evs * n"
  by (induction evs) simp_all

lemma VADStream_new_even:
  assumes "VADStream_new b m f d = Inr s"
  shows "even (chunkLength s)"
  using VADStream_new_fields(1) [OF assms] by auto

lemma writes_visits_event:
  assumes "VADStream_new b m f d = Inr s0" and "writes b s0 ws = Some (pre @ ev # post, r, s')"
  shows "\<exists>s s1. visits b (concat ws) s0 pre s (length pre * chunkLength s0)
      \<and> visits b (concat ws) s0 (pre @ [ev]) s1
          (length pre * chunkLength s0 + chunkLength s0)
      \<and> VADStream_processAudio b s
           (buffer_slice (concat ws) (length pre * chunkLength s0)
              (length pre * chunkLength s0 + chunkLength s0)) = (Resolved ev, s1)
      \<and> byteCount s = length pre * chunkLength s0 \<and> timeMultiplier s = timeMultiplier
          s0"
proof -
  note ready = VADStream_new_ready [OF assms(1)]
  from ready(1) obtain evs0 r0 s0' where
    ct: "VADStream_chunkTransform b s0 ([] @ concat ws) 0 = Some (evs0, r0, s0')"
    using chunkTransform_total by blast
  from writes_whole [OF ready(1) ready(2) _ ct] assms(2) have "evs0 = pre @ ev # post"
    by auto
  with ct have ct': "VADStream_chunkTransform b s0 (concat ws) 0 = Some
      (pre @ ev # post, r0, s0')"
    by simp
  have v0: "visits b (concat ws) s0 [] s0 0" by (rule visits_start)
  from chunkTransform_visits_event [OF ct' v0] obtain sk stk s1 where
    v: "visits b (concat ws) s0 pre sk stk"
    and pa: "VADStream_processAudio b sk (buffer_slice (concat ws) stk (stk + chunkLength sk)) =
        (Resolved ev, s1)"
    and v1: "visits b (concat ws) s0 (pre @ [ev]) s1 (stk + chunkLength sk)"
    by auto
  from visits_frame_facts [OF v] VADStream_new_fields(6) [OF assms(1)]
  have "chunkLength sk = chunkLength s0" "stk = length pre * chunkLength s0"
    "byteCount sk = length pre * chunkLength s0" "timeMultiplier sk = timeMultiplier s0"
    by simp_all
  with v pa v1 show ?thesis by auto
qed

lemma pick_step:
  assumes "\<exists>s s1. P s \<and> Q s1 \<and> (A \<longrightarrow> X s s1) \<and>
      (B \<longrightarrow> Y s s1)"
  shows "A \<Longrightarrow> \<exists>s s1. X s s1"
    and "B \<Longrightarrow> \<exists>s s1. Y s s1"
  using assms by blast+

lemma pick_timed_step:
  assumes "\<exists>s s1. P s \<and> Q s1 \<and> T \<and> (A \<longrightarrow> X s s1) \<and>
      (B \<longrightarrow> Y s s1)"
  shows "A \<Longrightarrow> \<exists>s s1. X s s1"
    and "B \<Longrightarrow> \<exists>s s1. Y s s1"
  using assms by blast+

section \<open>The claims\<close>

text \<open>
  Claim C1 says that the duration of an event is 0 whenever its state is false, and so on
  every frame that ends a segment. The source computes the duration before it changes
  \<^verbatim>\<open>this.state\<close>. At 8000 Hz with a debounce time of 0, a voiced frame followed by a silent
  one gives a second event with state false, end true and duration 60.
\<close>

theorem duration_on_end_frame_counterexample:
  "VADStream_new (scripted_binding [VOICE, SILENCE]) Undefined (Number (Num 8000))
      (Number (Num 0)) = Inr (stream8000 [VOICE, SILENCE] 0 False 0 0 (Some []))
   \<and> writes (scripted_binding [VOICE, SILENCE])
       (stream8000 [VOICE, SILENCE] 0 False 0 0 (Some [])) [replicate 1921 0] = Some
       ([(event960 0 True True False 0 0), (event960 60 False False True 0 60)], Resolved (),
       (stream8000 [] 1920 False 0 0 (Some [0])))
   \<and> \<not> speech_state (speech (event960 60 False False True 0 60))
   \<and> speech_end (speech (event960 60 False False True 0 60))
   \<and> speech_duration (speech (event960 60 False False True 0 60)) = 60"
  by (simp add: new8000 run_voice_silence) (simp add: event960_def)

text \<open>
  Claim C1 as the code has it. For every event \<open>ev\<close> pushed in a sequence of writes there is
  a call of \<^verbatim>\<open>_processAudio\<close> that pushed it, on a stream \<open>s\<close> and leaving \<open>s1\<close>. The emitted
  state is the flag after the transition. The duration is \<open>time - startTime\<close> of the
  stream when the flag before the transition is true, and 0 otherwise. In terms of the
  emitted fields: the duration is \<open>time - startTime\<close> when the state is true or the frame
  ends a segment, and 0 when the state is false and the frame ends none.
\<close>

theorem duration_uses_state_before_transition:
  assumes "writes b s0 ws = Some (evs, r, s')" and "ev \<in> set evs"
  shows "\<exists>s c s1. VADStream_processAudio b s c = (Resolved ev, s1)
           \<and> speech_state (speech ev) = state s1
           \<and> speech_duration (speech ev) = (if state s then time ev - startTime s else 0)
           \<and> (speech_state (speech ev) \<or> speech_end (speech ev) \<longrightarrow>
                speech_duration (speech ev) = time ev - speech_startTime (speech ev))
           \<and> (\<not> speech_state (speech ev) \<and> \<not> speech_end (speech ev)
               \<longrightarrow>
                speech_duration (speech ev) = 0)"
proof -
  from writes_steps [where I = "\<lambda>s. True", OF assms(1)] assms(2)
  obtain s c s1 where pa: "VADStream_processAudio b s c = (Resolved ev, s1)"
    by blast
  from step_fields [OF pa] have
    "speech_state (speech ev) = state s1"
    "speech_duration (speech ev) = (if state s then time ev - startTime s else 0)"
    "speech_state (speech ev) \<or> speech_end (speech ev) \<longrightarrow>
       speech_duration (speech ev) = time ev - speech_startTime (speech ev)"
    "\<not> speech_state (speech ev) \<and> \<not> speech_end (speech ev) \<longrightarrow>
        speech_duration (speech ev) = 0"
    by auto
  with pa show ?thesis by blast
qed

text \<open>The frame that ends the segment in the run silence, voice, silence.\<close>

theorem duration_uses_state_before_transition_witness:
  "writes (scripted_binding [SILENCE, VOICE, SILENCE])
      (stream8000 [SILENCE, VOICE, SILENCE] 0 False 0 0 (Some [])) [replicate 2881 0] = Some
      ([(event960 0 False False False 0 0), (event960 60 True True False 60 0),
      (event960 120 False False True 60 60)], Resolved (),
      (stream8000 [] 2880 False 0 60 (Some [0])))
   \<and> (event960 120 False False True 60 60) \<in> set
       [(event960 0 False False False 0 0), (event960 60 True True False 60 0),
       (event960 120 False False True 60 60)]
   \<and> speech_end (speech (event960 120 False False True 60 60))
   \<and> speech_duration (speech (event960 120 False False True 60 60))
        = time (event960 120 False False True 60 60) - speech_startTime
            (speech (event960 120 False False True 60 60))"
proof -
  note run = run_silence_voice_silence
  have mem: "(event960 120 False False True 60 60) \<in> set
      [(event960 0 False False False 0 0), (event960 60 True True False 60 0),
      (event960 120 False False True 60 60)]"
    by simp
  from duration_uses_state_before_transition [OF run mem]
  have "speech_duration (speech (event960 120 False False True 60 60)) = time
      (event960 120 False False True 60 60) - speech_startTime
      (speech (event960 120 False False True 60 60))"
    by (auto simp: event960_def)
  moreover have "speech_end (speech (event960 120 False False True 60 60))"
    by (simp add: event960_def)
  ultimately show ?thesis using run mem by blast
qed

text \<open>
  Claim C2 says that the 32-bit conversion returns as many floats as it was given. The
  source allocates \<^verbatim>\<open>buffer.length * 4\<close> bytes and writes the float read at byte offset \<open>i\<close>
  to byte offset \<^verbatim>\<open>i * 4\<close>: a buffer of one float
      (\<open>1.0\<close>, four bytes) comes back as sixteen
  bytes, the float followed by three zero floats. For every buffer whose length is a
  multiple of 4 the result is four times as long (lemma \<open>from32toFloatBuffer_length\<close>).
\<close>

theorem from32toFloatBuffer_one_float:
  "VAD_from32toFloatBuffer [0, 0, 0x80, 0x3F] = Inr ([0, 0, 0x80, 0x3F] @ replicate 12 0)"
  by (simp add: VAD_from32toFloatBuffer_def alloc_def readFloatLE_def writeFloatLE_def
      float_bytes_def)

text \<open>
  Claim C3 says that a frame is sliced off as long as a full frame remains, so that the
  leftover is shorter than a frame. The loop of the source goes on while
  \<^verbatim>\<open>start + chunkLength < chunk.length\<close>: a buffer that holds exactly one frame is kept
  whole. At 8000 Hz a frame has 960 bytes; after a write of 960 bytes no event has been
  pushed and the leftover has 960 bytes. What the loop does guarantee is a leftover of at
  most one frame (lemma \<open>leftover_at_most_one_frame\<close>).
\<close>

theorem exact_frame_is_held_back:
  "VADStream_new (scripted_binding []) Undefined (Number (Num 8000)) (Number (Num 0)) = Inr
      (stream8000 [] 0 False 0 0 (Some []))
   \<and> chunkLength (stream8000 [] 0 False 0 0 (Some [])) = 960
   \<and> writes (scripted_binding []) (stream8000 [] 0 False 0 0 (Some [])) [replicate 960 0] =
       Some ([], Resolved (), (stream8000 [] 0 False 0 0 (Some (replicate 960 0))))"
  by (simp add: new8000 run_simps)

text \<open>
  Claim C4. On a stream made by the constructor, two sequences of writes with the same
  concatenation both come to an end and push the same list of events (times, audio data
  and speech fields). They also end the same way, with the same error or both without
  one, and without error they leave the same stream. The classifier is a function of its
  own state, the float buffer and the rate.
\<close>

theorem chunk_boundary_independence:
  assumes "VADStream_new b m f d = Inr s" and "concat ws1 = concat ws2"
  shows "\<exists>evs r1 r2 s1 s2. writes b s ws1 = Some (evs, r1, s1) \<and> writes b s ws2 =
      Some (evs, r2, s2)
           \<and> settled r1 = settled r2 \<and> (r1 = Resolved () \<longrightarrow> s1 = s2)"
proof -
  note ready = VADStream_new_ready [OF assms(1)]
  from ready(1) obtain evs0 r0 s0 where
    ct: "VADStream_chunkTransform b s ([] @ concat ws1) 0 = Some (evs0, r0, s0)"
    using chunkTransform_total by blast
  from writes_whole [OF ready(1) ready(2) _ ct]
  obtain r1 s1 where w1: "writes b s ws1 = Some (evs0, r1, s1)"
    and rel1: "case settled r0 of Inl e \<Rightarrow> settled r1 = Inl e
               | Inr left \<Rightarrow> r1 = Resolved () \<and> s1 = s0\<lparr>buffer := Some
                   left\<rparr>"
    by auto
  from ct assms(2) have "VADStream_chunkTransform b s ([] @ concat ws2) 0 = Some (evs0, r0, s0)"
    by simp
  from writes_whole [OF ready(1) ready(2) _ this]
  obtain r2 s2 where w2: "writes b s ws2 = Some (evs0, r2, s2)"
    and rel2: "case settled r0 of Inl e \<Rightarrow> settled r2 = Inl e
               | Inr left \<Rightarrow> r2 = Resolved () \<and> s2 = s0\<lparr>buffer := Some
                   left\<rparr>"
    by auto
  from rel1 rel2 have "settled r1 = settled r2 \<and> (r1 = Resolved () \<longrightarrow> s1 = s2)"
    by (cases "settled r0") auto
  with w1 w2 show ?thesis by blast
qed

text \<open>One write of 1921 bytes against writes of 1000 and 921 bytes.\<close>

theorem chunk_boundary_independence_witness:
  "VADStream_new (scripted_binding [VOICE, SILENCE]) Undefined (Number (Num 8000))
      (Number (Num 0)) = Inr (stream8000 [VOICE, SILENCE] 0 False 0 0 (Some []))
   \<and> concat [replicate 1921 (0 :: byte)] = concat [replicate 1000 0, replicate 921 0]
   \<and> (\<exists>evs r1 r2 s1 s2.
         writes (scripted_binding [VOICE, SILENCE])
             (stream8000 [VOICE, SILENCE] 0 False 0 0 (Some [])) [replicate 1921 0] = Some
             (evs, r1, s1)
         \<and> writes (scripted_binding [VOICE, SILENCE])
             (stream8000 [VOICE, SILENCE] 0 False 0 0 (Some []))
             [replicate 1000 0, replicate 921 0] = Some (evs, r2, s2)
         \<and> settled r1 = settled r2 \<and> s1 = s2)"
proof -
  note new = new8000 [of "[VOICE, SILENCE]"]
  have eq: "concat [replicate 1921 (0 :: byte)] = concat [replicate 1000 0, replicate 921 0]"
    by (simp add: replicate_add [symmetric])
  from chunk_boundary_independence [OF new eq]
  obtain evs r1 r2 s1 s2 where
    w: "writes (scripted_binding [VOICE, SILENCE])
        (stream8000 [VOICE, SILENCE] 0 False 0 0 (Some [])) [replicate 1921 0] = Some (evs, r1, s1)"
       "writes (scripted_binding [VOICE, SILENCE])
           (stream8000 [VOICE, SILENCE] 0 False 0 0 (Some [])) [replicate 1000 0, replicate 921 0]
           = Some (evs, r2, s2)"
       "settled r1 = settled r2" and same: "r1 = Resolved () \<longrightarrow> s1 = s2"
    by blast
  from w(1) have "r1 = Resolved ()"
    by (simp add: run_voice_silence)
  with same have "s1 = s2" by simp
  with new eq w show ?thesis by blast
qed

text \<open>
  Claim C5. Let a write \<open>w\<close> arrive at a stream \<open>s0\<close> that retains \<open>rem\<close>, and let the loop over
  \<open>rem @ w\<close> have pushed the events \<open>evs\<close> when it comes to a frame that is due at offset
  \<open>start\<close> and that \<^verbatim>\<open>vad.processAudio\<close> classifies as \<open>ERROR\<close>. Then the frame pushes no event
  and its promise is rejected with the error of the source; the write pushes \<open>evs\<close> and
  nothing else, for this frame or a later one, calls back with that error and leaves the
  buffer \<^verbatim>\<open>null\<close>; a sequence of writes ends there, whatever writes follow; and a write
  forced on the stream afterwards pushes nothing and throws.
\<close>

theorem classification_error_is_fatal:
  assumes "visits b chunk s0 evs s start" and "buffer s0 = Some rem" and "chunk = rem @ w"
    and "start + chunkLength s < length chunk"
    and "VAD_processAudio b (vad s) (buffer_slice chunk start (start + chunkLength s))
           (audioFrequency s) Undefined = Inr (ERROR, v')"
    and "s1 = s\<lparr>byteCount := byteCount s + chunkLength s, vad := v'\<rparr>"
  shows "VADStream_processAudio b s (buffer_slice chunk start (start + chunkLength s))
           = (Rejected Error_in_VAD, s1)
         \<and> VADStream_transform b s0 w = Some
             (evs, Rejected Error_in_VAD, s1\<lparr>buffer := None\<rparr>)
         \<and> writes b s0 (w # later) = Some
             (evs, Rejected Error_in_VAD, s1\<lparr>buffer := None\<rparr>)
         \<and> VADStream_transform b (s1\<lparr>buffer := None\<rparr>) w'
              = Some ([], Thrown TypeError, s1\<lparr>buffer := None\<rparr>)"
proof -
  from assms(4) have "length (buffer_slice chunk start (start + chunkLength s)) = chunkLength s"
    by (simp add: buffer_slice_def)
  with processAudio_ERROR [OF assms(5)] assms(6)
  have pa: "VADStream_processAudio b s (buffer_slice chunk start (start + chunkLength s))
           = (Rejected Error_in_VAD, s1)"
    by simp
  from assms(4) pa have "VADStream_chunkTransform b s chunk start = Some
      ([], Rejected Error_in_VAD, s1)"
    by (rule chunkTransform_Rejected)
  from visits_Rejected [OF assms(1) this] assms(3)
  have "VADStream_chunkTransform b s0 (rem @ w) 0 = Some (evs, Rejected Error_in_VAD, s1)"
    by simp
  with assms(2) have tr: "VADStream_transform b s0 w = Some
      (evs, Rejected Error_in_VAD, s1\<lparr>buffer := None\<rparr>)"
    by (simp add: VADStream_transform_def)
  then have "writes b s0 (w # later) = Some
      (evs, Rejected Error_in_VAD, s1\<lparr>buffer := None\<rparr>)"
    by (simp add: writes.simps)
  moreover have "VADStream_transform b (s1\<lparr>buffer := None\<rparr>) w'
                 = Some ([], Thrown TypeError, s1\<lparr>buffer := None\<rparr>)"
    by (simp add: VADStream_transform_def)
  ultimately show ?thesis using pa tr by blast
qed

text \<open>A write of 2881 bytes whose second frame is classified as \<open>ERROR\<close>.\<close>

theorem classification_error_is_fatal_witness:
  "visits (scripted_binding [SILENCE, ERROR]) ([] @ replicate 2881 0)
      (stream8000 [SILENCE, ERROR] 0 False 0 0 (Some [])) [(event960 0 False False False 0 0)]
      (stream8000 [ERROR] 960 False 0 0 (Some [])) 960
   \<and> VADStream_processAudio (scripted_binding [SILENCE, ERROR])
       (stream8000 [ERROR] 960 False 0 0 (Some [])) (replicate 960 0)
        = (Rejected Error_in_VAD, stream8000 [] 1920 False 0 0 (Some []))
   \<and> VADStream_transform (scripted_binding [SILENCE, ERROR])
       (stream8000 [SILENCE, ERROR] 0 False 0 0 (Some [])) (replicate 2881 0)
        = Some ([(event960 0 False False False 0 0)], Rejected Error_in_VAD,
            (stream8000 [] 1920 False 0 0 None))
   \<and> writes (scripted_binding [SILENCE, ERROR])
       (stream8000 [SILENCE, ERROR] 0 False 0 0 (Some [])) [replicate 2881 0, replicate 5000 0]
        = Some ([(event960 0 False False False 0 0)], Rejected Error_in_VAD,
            (stream8000 [] 1920 False 0 0 None))
   \<and> VADStream_transform (scripted_binding [SILENCE, ERROR])
       (stream8000 [] 1920 False 0 0 None) (replicate 5000 0) = Some
       ([], Thrown TypeError, (stream8000 [] 1920 False 0 0 None))"
proof -
  let ?b = "(scripted_binding [SILENCE, ERROR])" and ?chunk = "[] @ replicate 2881 (0 :: byte)"
  have L: "chunkLength (stream8000 [SILENCE, ERROR] 0 False 0 0 (Some [])) = 960" "chunkLength
      (stream8000 [ERROR] 960 False 0 0 (Some [])) = 960"
    by (simp_all add: stream8000_def)
  have v0: "visits ?b ?chunk (stream8000 [SILENCE, ERROR] 0 False 0 0 (Some [])) []
      (stream8000 [SILENCE, ERROR] 0 False 0 0 (Some [])) 0"
    by (rule visits_start)
  have "visits ?b ?chunk (stream8000 [SILENCE, ERROR] 0 False 0 0 (Some []))
      ([] @ [(event960 0 False False False 0 0)]) (stream8000 [ERROR] 960 False 0 0 (Some []))
      (0 + chunkLength (stream8000 [SILENCE, ERROR] 0 False 0 0 (Some [])))"
  proof (rule visits_frame [OF v0])
    show "0 + chunkLength (stream8000 [SILENCE, ERROR] 0 False 0 0 (Some [])) < length ?chunk"
      by (simp add: L)
    show "VADStream_processAudio ?b (stream8000 [SILENCE, ERROR] 0 False 0 0 (Some []))
        (buffer_slice ?chunk 0 (0 + chunkLength
        (stream8000 [SILENCE, ERROR] 0 False 0 0 (Some []))))
            = (Resolved (event960 0 False False False 0 0),
                (stream8000 [ERROR] 960 False 0 0 (Some [])))"
      by (simp add: run_simps)
  qed
  then have v1: "visits ?b ?chunk (stream8000 [SILENCE, ERROR] 0 False 0 0 (Some []))
      [(event960 0 False False False 0 0)] (stream8000 [ERROR] 960 False 0 0 (Some [])) 960"
    by (simp add: L)
  have buf: "buffer (stream8000 [SILENCE, ERROR] 0 False 0 0 (Some [])) = Some []"
    by (simp add: stream8000_def)
  have due: "960 + chunkLength (stream8000 [ERROR] 960 False 0 0 (Some [])) < length ?chunk"
    by (simp add: L)
  have cls: "VAD_processAudio ?b (vad (stream8000 [ERROR] 960 False 0 0 (Some [])))
      (buffer_slice ?chunk 960 (960 + chunkLength (stream8000 [ERROR] 960 False 0 0 (Some []))))
      (audioFrequency (stream8000 [ERROR] 960 False 0 0 (Some []))) Undefined = Inr (ERROR, [])"
    by (simp add: run_simps)
  have s1: "stream8000 [] 1920 False 0 0 (Some [])
             = (stream8000 [ERROR] 960 False 0 0 (Some []))\<lparr>byteCount := byteCount
                 (stream8000 [ERROR] 960 False 0 0 (Some [])) + chunkLength
                 (stream8000 [ERROR] 960 False 0 0 (Some [])), vad := []\<rparr>"
    by (simp add: stream8000_def)
  have frame: "buffer_slice ?chunk 960
      (960 + chunkLength (stream8000 [ERROR] 960 False 0 0 (Some []))) = replicate 960 0"
    by (simp add: buffer_slice_def L)
  have none: "(stream8000 [] 1920 False 0 0 (Some []))\<lparr>buffer := None\<rparr> =
      (stream8000 [] 1920 False 0 0 None)"
    by (simp add: stream8000_def)
  from classification_error_is_fatal
      [OF v1 buf refl due cls s1, of "[replicate 5000 0]" "replicate 5000 0"]
  show ?thesis using v1
    unfolding frame none by simp
qed

text \<open>
  Claim C6 says that construction rejects every mode outside the four constants 0, 1, 2
  and 3. The source tests \<^verbatim>\<open>mode >= 0 && mode <= 3\<close>: the mode 3/2 is accepted.
\<close>

theorem fractional_mode_is_accepted_counterexample:
  "VADStream_new (scripted_binding []) (Number (Num (3 / 2))) Undefined Undefined
     = Inr \<lparr> vad = [], audioFrequency = 16000, debounceTime = Num 1000, timeMultiplier = 1
         / 32,
             chunkLength = 1920, byteCount = 0, state = False, startTime = 0, lastSpeech = 0,
             buffer = Some [] \<rparr>"
  by (simp add: VADStream_new_def VAD_new_def default_param_def scripted_binding_def alloc_def)

text \<open>
  Claim C6 as the code has it. When the classifier allocates and initialises, construction
  throws exactly when, after the defaults have replaced the options that are undefined,
  the mode is not a number from 0 to 3, or the rate is not one of 8000, 16000, 32000 and
  48000, or the debounce time is not a number or is below 0.
\<close>

theorem construction_throws_iff:
  assumes "vad_alloc_size b = Some n" and "vad_alloc b n = Some v0" and "vad_init b v0 = Some v1"
  shows "isl (VADStream_new b m f d) \<longleftrightarrow>
         \<not> (accepted_mode (default_param m (Number (Num 0)))
            \<and> accepted_audioFrequency (default_param f (Number (Num 16000)))
            \<and> accepted_debounceTime (default_param d (Number (Num 1000))))"
proof (cases "VAD_new b (default_param m (Number (Num 0)))")
  case (Inl e)
  then have "isl (VADStream_new b m f d)" by (simp add: VADStream_new_def)
  with Inl VAD_new_throws [OF assms, of "default_param m (Number (Num 0))"] show ?thesis
    by simp
next
  case (Inr v)
  with VAD_new_throws [OF assms, of "default_param m (Number (Num 0))"] VADStream_new_after_VAD
      [OF Inr]
  show ?thesis by simp
qed

text \<open>The scripted binding, with one accepted configuration and four that are refused.\<close>

theorem construction_throws_iff_witness:
  "vad_alloc_size (scripted_binding []) = Some 0
   \<and> vad_alloc (scripted_binding []) 0 = Some []
   \<and> vad_init (scripted_binding []) [] = Some []
   \<and> \<not> isl (VADStream_new (scripted_binding []) Undefined Undefined (Number (Num 0)))
   \<and> isl (VADStream_new (scripted_binding []) (Number (Num 4)) Undefined Undefined)
   \<and> isl (VADStream_new (scripted_binding []) Undefined (Number (Num 44100)) Undefined)
   \<and> isl (VADStream_new (scripted_binding []) Undefined Undefined (Number (Num (- 1))))
   \<and> isl (VADStream_new (scripted_binding []) Undefined Undefined (String ''1000''))"
proof -
  have b: "vad_alloc_size (scripted_binding []) = Some 0"
    "vad_alloc (scripted_binding []) 0 = Some []"
    "vad_init (scripted_binding []) [] = Some []"
    by (simp_all add: scripted_binding_def)
  have "\<not> isl (VADStream_new (scripted_binding []) Undefined Undefined (Number (Num 0)))"
    "isl (VADStream_new (scripted_binding []) (Number (Num 4)) Undefined Undefined)"
    "isl (VADStream_new (scripted_binding []) Undefined (Number (Num 44100)) Undefined)"
    "isl (VADStream_new (scripted_binding []) Undefined Undefined (Number (Num (- 1))))"
    "isl (VADStream_new (scripted_binding []) Undefined Undefined (String ''1000''))"
    unfolding construction_throws_iff [OF b]
    by (simp_all add: default_param_def)
  with b show ?thesis by blast
qed

text \<open>
  Claim C7 says that the events pushed and the leftover retained give back the bytes
  written, for every sequence of writes. A frame classified as \<open>ERROR\<close> ends that: of a
  write of 2881 bytes whose second frame fails, the first frame has been pushed, the
  buffer is \<^verbatim>\<open>null\<close>, and 1921 bytes are gone.
\<close>

theorem discarded_after_error_counterexample:
  "VADStream_new (scripted_binding [SILENCE, ERROR]) Undefined (Number (Num 8000))
      (Number (Num 0)) = Inr (stream8000 [SILENCE, ERROR] 0 False 0 0 (Some []))
   \<and> writes (scripted_binding [SILENCE, ERROR])
       (stream8000 [SILENCE, ERROR] 0 False 0 0 (Some [])) [replicate 2881 0]
        = Some ([(event960 0 False False False 0 0)], Rejected Error_in_VAD,
            (stream8000 [] 1920 False 0 0 None))
   \<and> buffer (stream8000 [] 1920 False 0 0 None) = None
   \<and> concat (map audioData [(event960 0 False False False 0 0)]) @ leftover
       (stream8000 [] 1920 False 0 0 None)
        \<noteq> concat [replicate 2881 0]"
  by (simp add: new8000 run_silence_error) (simp add: event960_def leftover_def stream8000_def)

text \<open>
  Claim C7 as the code has it. On a stream made by the constructor every sequence of
  writes comes to an end, and the audio data of the events pushed, in order, followed by
  some rest, is the concatenation of the bytes written: no byte is moved or repeated, and
  none is dropped in front of the rest. When the last write called back without error,
  the rest is the buffer the stream retains, so the events and the leftover give back the
  input exactly. Otherwise the write was rejected with \<open>Error in VAD\<close> and the buffer is
  \<^verbatim>\<open>null\<close>: the rest is longer than a frame, its first frame is the one the classifier
  answered \<open>ERROR\<close> for in the stream reached after the events pushed, no event was
  pushed for that frame or for any byte after it, and the stream is left as that frame
  left it, with the byte count advanced by one frame and nothing retained.
\<close>

theorem chunker_keeps_every_byte:
  assumes "VADStream_new b m f d = Inr s"
  shows "\<exists>evs r s' rest. writes b s ws = Some (evs, r, s')
           \<and> concat ws = concat (map audioData evs) @ rest
           \<and> (r = Resolved () \<longrightarrow> buffer s' = Some rest)
           \<and> (r \<noteq> Resolved () \<longrightarrow>
                r = Rejected Error_in_VAD \<and> buffer s' = None
                \<and> chunkLength s < length rest
                \<and> (\<exists>sk v'. visits b (concat ws) s evs sk (length evs * chunkLength s)
                      \<and> VAD_processAudio b (vad sk) (take (chunkLength s) rest)
                           (audioFrequency sk) Undefined = Inr (ERROR, v')
                      \<and> s' = sk\<lparr>byteCount := byteCount sk + chunkLength s, vad := v',
                                  buffer := None\<rparr>))"
proof -
  note ready = VADStream_new_ready [OF assms(1)]
  note even = VADStream_new_even [OF assms(1)]
  from ready(1) obtain evs0 r0 s0 where
    ct: "VADStream_chunkTransform b s ([] @ concat ws) 0 = Some (evs0, r0, s0)"
    using chunkTransform_total by blast
  from writes_whole [OF ready(1) ready(2) _ ct]
  obtain r s' where w: "writes b s ws = Some (evs0, r, s')"
    and rel: "case settled r0 of Inl e \<Rightarrow> settled r = Inl e
               | Inr left \<Rightarrow> r = Resolved () \<and> s' = s0\<lparr>buffer := Some
                   left\<rparr>"
    by auto
  from chunkTransform_bytes [OF ct] obtain rest where
    len: "\<forall>ev\<in>set evs0. length (audioData ev) = chunkLength s"
    and bytes: "concat ws = concat (map audioData evs0) @ rest"
    and left: "\<forall>left. r0 = Resolved left \<longrightarrow> left = rest"
    by auto
  from rel left have ok: "r = Resolved () \<longrightarrow> buffer s' = Some rest"
    by (cases r0) auto
  have failed: "r = Rejected Error_in_VAD \<and> buffer s' = None
                \<and> chunkLength s < length rest
                \<and> (\<exists>sk v'. visits b (concat ws) s evs0 sk
                    (length evs0 * chunkLength s)
                      \<and> VAD_processAudio b (vad sk) (take (chunkLength s) rest)
                           (audioFrequency sk) Undefined = Inr (ERROR, v')
                      \<and> s' = sk\<lparr>byteCount := byteCount sk + chunkLength s, vad := v',
                                  buffer := None\<rparr>)"
    if nr: "r \<noteq> Resolved ()"
  proof -
    from rel nr obtain e where r0e: "settled r0 = Inl e" and re: "settled r = Inl e"
      by (cases "settled r0") auto
    from r0e chunkTransform_not_Thrown [OF ct, of e] even have r0: "r0 = Rejected e"
      by (cases r0) simp_all
    from re writes_not_Thrown [OF w ready(2) even, of e] have r: "r = Rejected e"
      by (cases r) simp_all
    from writes_failed_state [OF ready(1) ready(2) _ ct w [unfolded r]]
    have s': "s' = s0\<lparr>buffer := None\<rparr>" by simp
    from ct r0 have ct': "VADStream_chunkTransform b s (concat ws) 0 = Some
        (evs0, Rejected e, s0)"
      by simp
    have v0: "visits b (concat ws) s [] s 0" by (rule visits_start)
    from chunkTransform_visits_Rejected [OF ct' even v0] obtain sk stk where
      v: "visits b (concat ws) s evs0 sk stk"
      and due: "stk + chunkLength sk < length (concat ws)"
      and pa: "VADStream_processAudio b sk (buffer_slice (concat ws) stk (stk + chunkLength sk))
                 = (Rejected e, s0)"
      by auto
    from visits_frame_facts [OF v]
    have L: "chunkLength sk = chunkLength s" and stk: "stk = length evs0 * chunkLength s"
      by simp_all
    from length_concat_frames [OF len] stk
    have "length (concat (map audioData evs0)) = stk" by simp
    with bytes have rest: "drop stk (concat ws) = rest" by simp
    then have frame:
      "buffer_slice (concat ws) stk (stk + chunkLength sk) = take (chunkLength s) rest"
      by (simp add: buffer_slice_def L)
    from due rest L have long: "chunkLength s < length rest"
      by (metis add.commute length_drop less_diff_conv)
    then have flen: "length (take (chunkLength s) rest) = chunkLength s" by simp
    from processAudio_Rejected [OF pa [unfolded frame]] flen obtain v' where
      "e = Error_in_VAD"
      "VAD_processAudio b (vad sk) (take (chunkLength s) rest) (audioFrequency sk) Undefined
         = Inr (ERROR, v')"
      "s0 = sk\<lparr>byteCount := byteCount sk + chunkLength s, vad := v'\<rparr>"
      by auto
    with r s' long v stk show ?thesis by auto
  qed
  from w bytes ok failed show ?thesis by blast
qed

text \<open>
  Writes of 1000 and 921 bytes, and a write of 2881 bytes whose second frame fails.
\<close>

theorem chunker_keeps_every_byte_witness:
  "VADStream_new (scripted_binding [VOICE, SILENCE]) Undefined (Number (Num 8000))
      (Number (Num 0)) = Inr (stream8000 [VOICE, SILENCE] 0 False 0 0 (Some []))
   \<and> (\<exists>evs r s' rest.
         writes (scripted_binding [VOICE, SILENCE])
             (stream8000 [VOICE, SILENCE] 0 False 0 0 (Some []))
             [replicate 1000 0, replicate 921 0] = Some (evs, r, s')
         \<and> concat [replicate 1000 0, replicate 921 0] = concat (map audioData evs) @ rest
         \<and> r = Resolved () \<and> buffer s' = Some rest)
   \<and> VADStream_new (scripted_binding [SILENCE, ERROR]) Undefined (Number (Num 8000))
       (Number (Num 0)) = Inr (stream8000 [SILENCE, ERROR] 0 False 0 0 (Some []))
   \<and> writes (scripted_binding [SILENCE, ERROR])
       (stream8000 [SILENCE, ERROR] 0 False 0 0 (Some [])) [replicate 2881 0] = Some
       ([(event960 0 False False False 0 0)], Rejected Error_in_VAD,
       (stream8000 [] 1920 False 0 0 None))
   \<and> (\<exists>rest. concat [replicate 2881 0] = concat
       (map audioData [(event960 0 False False False 0 0)]) @ rest
         \<and> chunkLength (stream8000 [SILENCE, ERROR] 0 False 0 0 (Some [])) < length rest
             \<and> buffer (stream8000 [] 1920 False 0 0 None) = None)"
proof -
  note new = new8000 [of "[VOICE, SILENCE]"]
  from chunker_keeps_every_byte [OF new]
  obtain evs r s' rest where
    w: "writes (scripted_binding [VOICE, SILENCE])
        (stream8000 [VOICE, SILENCE] 0 False 0 0 (Some [])) [replicate 1000 0, replicate 921 0] =
        Some (evs, r, s')"
       "concat [replicate 1000 0, replicate 921 0] = concat (map audioData evs) @ rest"
    and left: "r = Resolved () \<longrightarrow> buffer s' = Some rest"
    by blast
  from w(1) have "r = Resolved ()"
    by (simp add: run_two_writes)
  with left w have 1: "\<exists>evs r s' rest.
         writes (scripted_binding [VOICE, SILENCE])
             (stream8000 [VOICE, SILENCE] 0 False 0 0 (Some []))
             [replicate 1000 0, replicate 921 0] = Some (evs, r, s')
         \<and> concat [replicate 1000 0, replicate 921 0] = concat (map audioData evs) @ rest
         \<and> r = Resolved () \<and> buffer s' = Some rest"
    by blast
  note new4 = new8000 [of "[SILENCE, ERROR]"] and run4 = run_silence_error
  from chunker_keeps_every_byte [OF new4, of "[replicate 2881 0]"]
  obtain evs4 r4 s4 rest4 where
    w4: "writes (scripted_binding [SILENCE, ERROR])
        (stream8000 [SILENCE, ERROR] 0 False 0 0 (Some [])) [replicate 2881 0] = Some
        (evs4, r4, s4)"
      "concat [replicate 2881 0] = concat (map audioData evs4) @ rest4"
    and failed: "r4 \<noteq> Resolved () \<longrightarrow> buffer s4 = None
        \<and> chunkLength (stream8000 [SILENCE, ERROR] 0 False 0 0 (Some [])) < length rest4"
    by blast
  from w4(1) have "evs4 = [(event960 0 False False False 0 0)]" "r4 = Rejected Error_in_VAD"
    "s4 = (stream8000 [] 1920 False 0 0 None)"
    by (simp_all add: run4)
  with w4(2) failed have 2: "\<exists>rest. concat [replicate 2881 0] = concat
      (map audioData [(event960 0 False False False 0 0)]) @ rest
         \<and> chunkLength (stream8000 [SILENCE, ERROR] 0 False 0 0 (Some [])) < length rest
             \<and> buffer (stream8000 [] 1920 False 0 0 None) = None"
    by auto
  from new 1 new4 run4 2 show ?thesis by blast
qed

text \<open>
  Claim C8. Take a stream made by the constructor, a sequence of writes, and an event
  \<open>ev\<close> pushed after the events \<open>pre\<close>. The loop over the bytes written visits a stream
  \<open>s\<close> before the frame of \<open>ev\<close> and a stream \<open>s1\<close> after it (by \<open>visits_unique\<close> they are
  the only ones), and the time of \<open>ev\<close> is that of its offset. When start is true the
  emitted startTime is the time of the frame, which is also the start time \<open>s1\<close> holds.
  When end is true the emitted startTime is the start time \<open>s\<close> held before the frame,
  which is the time of the start frame of the segment open after \<open>pre\<close>, and \<open>s1\<close> holds
  the start time 0.
\<close>

theorem startTime_on_transition_frames:
  assumes "VADStream_new b m f d = Inr s0" and "writes b s0 ws = Some (pre @ ev # post, r, s')"
  shows "\<exists>s s1. visits b (concat ws) s0 pre s (length pre * chunkLength s0)
      \<and> visits b (concat ws) s0 (pre @ [ev]) s1
          (length pre * chunkLength s0 + chunkLength s0)
      \<and> time ev = timeMultiplier s0 * of_nat (length pre * chunkLength s0)
      \<and> (speech_start (speech ev) \<longrightarrow>
            speech_startTime (speech ev) = time ev \<and> startTime s1 = time ev)
      \<and> (speech_end (speech ev) \<longrightarrow>
            speech_startTime (speech ev) = startTime s
            \<and> open_segment None pre = Some (startTime s) \<and> startTime s1 = 0)"
proof -
  from writes_visits_event [OF assms] obtain s s1 where
    v: "visits b (concat ws) s0 pre s (length pre * chunkLength s0)"
    and v1: "visits b (concat ws) s0 (pre @ [ev]) s1
        (length pre * chunkLength s0 + chunkLength s0)"
    and pa: "VADStream_processAudio b s
           (buffer_slice (concat ws) (length pre * chunkLength s0)
              (length pre * chunkLength s0 + chunkLength s0)) = (Resolved ev, s1)"
    and bc: "byteCount s = length pre * chunkLength s0" "timeMultiplier s = timeMultiplier s0"
    by blast
  note f = step_fields [OF pa]
  note seg = visits_open_segment [OF v VADStream_new_fields(7,8) [OF assms(1)]]
  from f(1) bc have "time ev = timeMultiplier s0 * of_nat (length pre * chunkLength s0)"
    by simp
  moreover from f have "speech_start (speech ev) \<longrightarrow>
            speech_startTime (speech ev) = time ev \<and> startTime s1 = time ev"
    by auto
  moreover from f seg have "speech_end (speech ev) \<longrightarrow>
            speech_startTime (speech ev) = startTime s
            \<and> open_segment None pre = Some (startTime s) \<and> startTime s1 = 0"
    by (cases "open_segment None pre") auto
  ultimately show ?thesis using v v1 by blast
qed

text \<open>
  The start frame and the end frame of the run silence, voice, voice, voice, silence: the
  segment starts at 60, the last voiced frame is at 180, the end frame at 240 carries 60.
\<close>

theorem startTime_on_transition_frames_witness:
  "VADStream_new (scripted_binding [SILENCE, VOICE, VOICE, VOICE, SILENCE]) Undefined
      (Number (Num 8000)) (Number (Num 0)) = Inr
      (stream8000 [SILENCE, VOICE, VOICE, VOICE, SILENCE] 0 False 0 0 (Some []))
   \<and> writes (scripted_binding [SILENCE, VOICE, VOICE, VOICE, SILENCE])
       (stream8000 [SILENCE, VOICE, VOICE, VOICE, SILENCE] 0 False 0 0 (Some []))
       [replicate 4801 0] = Some
       ([(event960 0 False False False 0 0), (event960 60 True True False 60 0),
       (event960 120 True False False 60 60), (event960 180 True False False 60 120),
       (event960 240 False False True 60 180)], Resolved (),
       (stream8000 [] 4800 False 0 180 (Some [0])))
   \<and> speech_start (speech (event960 60 True True False 60 0))
   \<and> speech_startTime (speech (event960 60 True True False 60 0)) = time
       (event960 60 True True False 60 0)
   \<and> speech_end (speech (event960 240 False False True 60 180))
   \<and> open_segment None
       [(event960 0 False False False 0 0), (event960 60 True True False 60 0),
       (event960 120 True False False 60 60), (event960 180 True False False 60 120)] = Some
       (speech_startTime (speech (event960 240 False False True 60 180)))"
proof -
  note new = new8000 [of "[SILENCE, VOICE, VOICE, VOICE, SILENCE]"]
    and run = run_silence_voice_voice_voice_silence
  have flags: "speech_start (speech (event960 60 True True False 60 0))" "speech_end
      (speech (event960 240 False False True 60 180))"
    by (simp_all add: event960_def)
  from run have run1: "writes (scripted_binding [SILENCE, VOICE, VOICE, VOICE, SILENCE])
      (stream8000 [SILENCE, VOICE, VOICE, VOICE, SILENCE] 0 False 0 0 (Some []))
      [replicate 4801 0]
      = Some ([(event960 0 False False False 0 0)] @ (event960 60 True True False 60 0) #
          [(event960 120 True False False 60 60), (event960 180 True False False 60 120),
          (event960 240 False False True 60 180)], Resolved (),
          (stream8000 [] 4800 False 0 180 (Some [0])))"
    by simp
  from pick_timed_step(1) [OF startTime_on_transition_frames [OF new run1] flags(1)]
  have 1: "speech_startTime (speech (event960 60 True True False 60 0)) = time
      (event960 60 True True False 60 0)"
    by (elim exE conjE)
  from run have run2: "writes (scripted_binding [SILENCE, VOICE, VOICE, VOICE, SILENCE])
      (stream8000 [SILENCE, VOICE, VOICE, VOICE, SILENCE] 0 False 0 0 (Some []))
      [replicate 4801 0]
      = Some ([(event960 0 False False False 0 0), (event960 60 True True False 60 0),
          (event960 120 True False False 60 60), (event960 180 True False False 60 120)] @
          (event960 240 False False True 60 180) # [], Resolved (),
          (stream8000 [] 4800 False 0 180 (Some [0])))"
    by simp
  from pick_timed_step(2) [OF startTime_on_transition_frames [OF new run2] flags(2)]
  have 2: "open_segment None
      [(event960 0 False False False 0 0), (event960 60 True True False 60 0),
      (event960 120 True False False 60 60), (event960 180 True False False 60 120)] = Some
      (speech_startTime (speech (event960 240 False False True 60 180)))"
    by (elim exE conjE) simp
  from new run flags 1 2 show ?thesis by (intro conjI)
qed

text \<open>
  Claim C9. \<^verbatim>\<open>processAudio\<close> tests \<^verbatim>\<open>bits === 32\<close> and nothing else. For every \<^verbatim>\<open>bits\<close> that is
  not the number 32 (the default 16, but also 8, 24 or a value that is no number) the
  buffer goes through the 16-bit converter and its result is classified; the outcome does
  not depend on \<^verbatim>\<open>bits\<close>, so no bit depth is rejected. The only error is the range error
  of the converter on a buffer of odd length.
\<close>

theorem processAudio_bits:
  "bits \<noteq> Number (Num 32) \<Longrightarrow>
   VAD_processAudio b v buf rate bits =
     (case VAD_from16toFloatBuffer buf of
        Inl e \<Rightarrow> Inl e
      | Inr floatData \<Rightarrow> Inr (vad_processAudioAsync b v floatData rate))"
  by (simp add: VAD_processAudio_def default_param_def)

text \<open>The bit depths 8 and the string \<open>32\<close> on a buffer of one sample.\<close>

theorem processAudio_bits_witness:
  "Number (Num 8) \<noteq> Number (Num 32) \<and> String ''32'' \<noteq> Number (Num 32)
   \<and> VAD_processAudio (scripted_binding []) [VOICE] [0, 64] 8000 (Number (Num 8)) = Inr
       (VOICE, [])
   \<and> VAD_processAudio (scripted_binding []) [VOICE] [0, 64] 8000 (String ''32'') = Inr (VOICE, [])"
  using processAudio_bits [of "Number (Num 8)" "scripted_binding []" "[VOICE]" "[0, 64]" 8000]
    processAudio_bits [of "String ''32''" "scripted_binding []" "[VOICE]" "[0, 64]" 8000]
  by (simp add: from16_example scripted_binding_def)

text \<open>
  Claim C10. Take a stream made by the constructor, a sequence of writes, and an event
  \<open>ev\<close> pushed after the events \<open>pre\<close>, with \<open>s\<close> and \<open>s1\<close> the streams the loop visits
  before and after its frame. When state is true and start is false, \<open>s\<close> was speaking,
  the emitted startTime is the start time held by \<open>s\<close>, which is the time of the start
  frame of the segment open after \<open>pre\<close>, and \<open>s1\<close> holds it unchanged. When state is
  false and end is false, \<open>s\<close> was not speaking, no segment is open after \<open>pre\<close>, and the
  emitted startTime is 0.
\<close>

theorem startTime_on_other_frames:
  assumes "VADStream_new b m f d = Inr s0" and "writes b s0 ws = Some (pre @ ev # post, r, s')"
  shows "\<exists>s s1. visits b (concat ws) s0 pre s (length pre * chunkLength s0)
      \<and> visits b (concat ws) s0 (pre @ [ev]) s1
          (length pre * chunkLength s0 + chunkLength s0)
      \<and> (speech_state (speech ev) \<and> \<not> speech_start (speech ev) \<longrightarrow>
            state s \<and> speech_startTime (speech ev) = startTime s
            \<and> open_segment None pre = Some (startTime s) \<and> startTime s1 = startTime s)
      \<and> (\<not> speech_state (speech ev) \<and> \<not> speech_end (speech ev)
          \<longrightarrow>
            \<not> state s \<and> open_segment None pre = None \<and> speech_startTime
                (speech ev) = 0)"
proof -
  from writes_visits_event [OF assms] obtain s s1 where
    v: "visits b (concat ws) s0 pre s (length pre * chunkLength s0)"
    and v1: "visits b (concat ws) s0 (pre @ [ev]) s1
        (length pre * chunkLength s0 + chunkLength s0)"
    and pa: "VADStream_processAudio b s
           (buffer_slice (concat ws) (length pre * chunkLength s0)
              (length pre * chunkLength s0 + chunkLength s0)) = (Resolved ev, s1)"
    by blast
  note f = step_fields [OF pa]
  note seg = visits_open_segment [OF v VADStream_new_fields(7,8) [OF assms(1)]]
  from f seg have "speech_state (speech ev) \<and> \<not> speech_start (speech ev)
      \<longrightarrow>
            state s \<and> speech_startTime (speech ev) = startTime s
            \<and> open_segment None pre = Some (startTime s) \<and> startTime s1 = startTime s"
    by (cases "open_segment None pre") auto
  moreover from f seg have
    "\<not> speech_state (speech ev) \<and> \<not> speech_end (speech ev) \<longrightarrow>
            \<not> state s \<and> open_segment None pre = None \<and> speech_startTime
                (speech ev) = 0"
    by (cases "open_segment None pre") auto
  ultimately show ?thesis using v v1 by blast
qed

text \<open>
  The fourth and the first frame of the run silence, voice, voice, voice, silence: the
  fourth frame, at 180, carries the start time 60 of its segment.
\<close>

theorem startTime_on_other_frames_witness:
  "VADStream_new (scripted_binding [SILENCE, VOICE, VOICE, VOICE, SILENCE]) Undefined
      (Number (Num 8000)) (Number (Num 0)) = Inr
      (stream8000 [SILENCE, VOICE, VOICE, VOICE, SILENCE] 0 False 0 0 (Some []))
   \<and> writes (scripted_binding [SILENCE, VOICE, VOICE, VOICE, SILENCE])
       (stream8000 [SILENCE, VOICE, VOICE, VOICE, SILENCE] 0 False 0 0 (Some []))
       [replicate 4801 0] = Some
       ([(event960 0 False False False 0 0), (event960 60 True True False 60 0),
       (event960 120 True False False 60 60), (event960 180 True False False 60 120),
       (event960 240 False False True 60 180)], Resolved (),
       (stream8000 [] 4800 False 0 180 (Some [0])))
   \<and> speech_state (speech (event960 180 True False False 60 120)) \<and> \<not> speech_start
       (speech (event960 180 True False False 60 120))
   \<and> open_segment None
       [(event960 0 False False False 0 0), (event960 60 True True False 60 0),
       (event960 120 True False False 60 60)] = Some
       (speech_startTime (speech (event960 180 True False False 60 120)))
   \<and> \<not> speech_state (speech (event960 0 False False False 0 0)) \<and> \<not>
       speech_end (speech (event960 0 False False False 0 0))
   \<and> speech_startTime (speech (event960 0 False False False 0 0)) = 0"
proof -
  note new = new8000 [of "[SILENCE, VOICE, VOICE, VOICE, SILENCE]"]
    and run = run_silence_voice_voice_voice_silence
  have flags: "speech_state (speech (event960 180 True False False 60 120))"
    "\<not> speech_start (speech (event960 180 True False False 60 120))"
    "\<not> speech_state (speech (event960 0 False False False 0 0))" "\<not> speech_end
        (speech (event960 0 False False False 0 0))"
    by (simp_all add: event960_def)
  have mid: "speech_state (speech (event960 180 True False False 60 120)) \<and> \<not>
      speech_start (speech (event960 180 True False False 60 120))"
    and idle: "\<not> speech_state (speech (event960 0 False False False 0 0))
        \<and> \<not> speech_end (speech (event960 0 False False False 0 0))"
    by (simp_all add: event960_def)
  from run have run1: "writes (scripted_binding [SILENCE, VOICE, VOICE, VOICE, SILENCE])
      (stream8000 [SILENCE, VOICE, VOICE, VOICE, SILENCE] 0 False 0 0 (Some []))
      [replicate 4801 0]
      = Some ([(event960 0 False False False 0 0), (event960 60 True True False 60 0),
          (event960 120 True False False 60 60)] @ (event960 180 True False False 60 120) #
          [(event960 240 False False True 60 180)], Resolved (),
          (stream8000 [] 4800 False 0 180 (Some [0])))"
    by simp
  from pick_step(1) [OF startTime_on_other_frames [OF new run1] mid]
  have 1: "open_segment None
      [(event960 0 False False False 0 0), (event960 60 True True False 60 0),
      (event960 120 True False False 60 60)] = Some
      (speech_startTime (speech (event960 180 True False False 60 120)))"
    by (elim exE conjE) simp
  from run have run2: "writes (scripted_binding [SILENCE, VOICE, VOICE, VOICE, SILENCE])
      (stream8000 [SILENCE, VOICE, VOICE, VOICE, SILENCE] 0 False 0 0 (Some []))
      [replicate 4801 0]
      = Some ([] @ (event960 0 False False False 0 0) #
          [(event960 60 True True False 60 0), (event960 120 True False False 60 60),
          (event960 180 True False False 60 120), (event960 240 False False True 60 180)],
          Resolved (), (stream8000 [] 4800 False 0 180 (Some [0])))"
    by simp
  from pick_step(2) [OF startTime_on_other_frames [OF new run2] idle]
  have 2: "speech_startTime (speech (event960 0 False False False 0 0)) = 0"
    by (elim exE conjE)
  from new run flags 1 2 show ?thesis by (intro conjI)
qed

end
